theory Spec2Isabelle
  imports Main "HOL-Library.Word"
begin

section \<open>DivvyDroid video thread: constants and data\<close>

text \<open>
  An embedding of \<^verbatim>\<open>src/device/videothread.cpp\<close>. The calls into libav, Qt and the
  device connection are answered by an environment: every function of the model takes
  the results those calls deliver and threads the members of \<^verbatim>\<open>VideoThread\<close> through a
  record. Error codes are the C \<^verbatim>\<open>int\<close> values; no arithmetic is done on them.
\<close>

text \<open>\<^verbatim>\<open>AVERROR(EAGAIN)\<close> with \<^verbatim>\<open>EAGAIN = 11\<close>, and \<^verbatim>\<open>AVERROR_EOF = -MKTAG('E','O','F',' ')\<close>
  (libavutil/error.h).\<close>

definition AVERROR_EAGAIN :: int where
  "AVERROR_EAGAIN = - 11"

definition AVERROR_EOF :: int where
  "AVERROR_EOF = - (69 + 79 * 256 + 70 * 65536 + 32 * 16777216)"

text \<open>Modelled from the spec: the enum \<^verbatim>\<open>VideMode\<close> is declared in the header
  \<^verbatim>\<open>videothread.h\<close>, which is not among the sources. Its values are the four the source
  file names: the compressed-stream mode and the three still-image formats of the
  snapshot mode.\<close>

datatype VideMode = FastH264 | NativeJpg | NativeRaw | NativePng

text \<open>
  A \<^verbatim>\<open>QImage\<close> by what the code fixes of it: size, pixel format, and whether its pixels
  are uninitialised, filled black, or a picture whose content is not modelled.
  \<open>Format_Device\<close> is the format a fetched still image arrives in; \<open>Format_Transformed\<close>
  is whatever format Qt's transformation yields for a source format.
\<close>

datatype ImageFormat =
  Format_Invalid | Format_RGB888 | Format_Device | Format_Transformed ImageFormat

datatype Pixels = Uninitialised | Black | Picture

record QImage =
  img_width :: int
  img_height :: int
  img_format :: ImageFormat
  img_pixels :: Pixels

text \<open>The default-constructed (null) image.\<close>

definition null_image :: QImage where
  "null_image = \<lparr>img_width = 0, img_height = 0, img_format = Format_Invalid,
     img_pixels = Uninitialised\<rparr>"

definition isNull :: "QImage \<Rightarrow> bool" where
  "isNull img \<longleftrightarrow> img = null_image"

text \<open>\<^verbatim>\<open>QImage(w, h, format)\<close>: a null image unless both dimensions are positive.\<close>

definition QImage_new :: "int \<Rightarrow> int \<Rightarrow> ImageFormat \<Rightarrow> QImage" where
  "QImage_new w h fmt =
     (if w \<le> 0 \<or> h \<le> 0 then null_image
      else \<lparr>img_width = w, img_height = h, img_format = fmt, img_pixels = Uninitialised\<rparr>)"

text \<open>\<^verbatim>\<open>img.fill(Qt::black)\<close>.\<close>

definition fill_black :: "QImage \<Rightarrow> QImage" where
  "fill_black img = (if isNull img then img else img\<lparr>img_pixels := Black\<rparr>)"

text \<open>
  \<^verbatim>\<open>QImage::scaledToWidth(w, Qt::SmoothTransformation)\<close>, from Qt's documentation: a null
  image or a non-positive width gives a null image; otherwise both axes are scaled by
  \<open>w / width\<close>, the height rounded to the nearest integer (\<^verbatim>\<open>qRound\<close>, written here on
  exact fractions), and an image that would lose a dimension is null. Scaling by 1
  returns the image itself.
\<close>

definition scaledToWidth :: "QImage \<Rightarrow> int \<Rightarrow> QImage" where
  "scaledToWidth img w =
     (if isNull img \<or> w \<le> 0 then null_image
      else if w = img_width img then img
      else (let hd = (2 * img_height img * w + img_width img) div (2 * img_width img)
            in if hd = 0 then null_image
               else \<lparr>img_width = w, img_height = hd,
                      img_format = Format_Transformed (img_format img),
                      img_pixels = (if img_pixels img = Black then Black else Picture)\<rparr>))"

subsection \<open>Owned resources\<close>

text \<open>
  The raw pointers of the class are addresses or null; the heap is the list of all
  cells ever allocated, a cell being \<open>None\<close> once freed. An allocation takes the next
  cell, so no address is handed out twice. Freeing a cell that is not allocated is the
  double free; going through a null or freed pointer is the crash.
\<close>

type_synonym addr = nat
type_synonym ptr = "addr option"

datatype obj =
  SwsContext
  | AVFrame ptr              \<comment> \<open>\<^verbatim>\<open>data[0]\<close>\<close>
  | ImageData
  | AVCodecContext
  | AVFormatContext ptr      \<comment> \<open>\<^verbatim>\<open>pb\<close>\<close>
  | AVIOContext ptr          \<comment> \<open>\<^verbatim>\<open>buffer\<close>\<close>
  | Buffer

type_synonym heap = "obj option list"

datatype fault = NullDeref | UseAfterFree | DoubleFree

definition cell :: "heap \<Rightarrow> addr \<Rightarrow> obj option" where
  "cell h a = (if a < length h then h ! a else None)"

definition alloc :: "obj \<Rightarrow> heap \<Rightarrow> addr \<times> heap" where
  "alloc ob h = (length h, h @ [Some ob])"

definition release :: "addr \<Rightarrow> heap \<Rightarrow> fault + heap" where
  "release a h = (if cell h a = None then Inl DoubleFree else Inr (h[a := None]))"

definition deref :: "ptr \<Rightarrow> heap \<Rightarrow> fault + obj" where
  "deref p h =
     (case p of None \<Rightarrow> Inl NullDeref
      | Some a \<Rightarrow> (case cell h a of None \<Rightarrow> Inl UseAfterFree | Some ob \<Rightarrow> Inr ob))"

text \<open>A log line: the fixed text of a \<^verbatim>\<open>qDebug\<close>/\<^verbatim>\<open>qWarning\<close> and the codes printed after it.\<close>

type_synonym logline = "string \<times> int list"

record vstate =
  m_imageWidth :: int
  m_imageHeight :: int
  m_nativeInterval :: nat
  m_videoMode :: VideMode
  m_avFormat :: ptr
  m_avStream :: "nat option"
  m_codecCtx :: ptr
  m_swsContext :: ptr
  m_frame :: ptr
  m_rgbFrame :: ptr
  heap :: heap
  pkt_owned :: bool          \<comment> \<open>the local \<^verbatim>\<open>pkt\<close> holds a reference to packet data\<close>
  pkt_lost :: nat            \<comment> \<open>packet references overwritten without being released\<close>
  emitted :: "QImage list"   \<comment> \<open>the \<^verbatim>\<open>imageReady\<close> signals, oldest first\<close>
  dbg :: "logline list"
  slept :: nat               \<comment> \<open>milliseconds spent in \<^verbatim>\<open>msleep\<close>\<close>

definition say :: "string \<Rightarrow> int list \<Rightarrow> vstate \<Rightarrow> vstate" where
  "say msg codes s = s\<lparr>dbg := dbg s @ [(msg, codes)]\<rparr>"

definition emit_imageReady :: "QImage \<Rightarrow> vstate \<Rightarrow> vstate" where
  "emit_imageReady img s = s\<lparr>emitted := emitted s @ [img]\<rparr>"

definition new_obj :: "obj \<Rightarrow> vstate \<Rightarrow> addr \<times> vstate" where
  "new_obj ob s = (let (a, h) = alloc ob (heap s) in (a, s\<lparr>heap := h\<rparr>))"

definition free_obj :: "addr \<Rightarrow> vstate \<Rightarrow> fault + vstate" where
  "free_obj a s =
     (case release a (heap s) of Inl f \<Rightarrow> Inl f | Inr h \<Rightarrow> Inr (s\<lparr>heap := h\<rparr>))"

text \<open>Sequencing of steps that may fault.\<close>

definition andthen :: "fault + 'a \<Rightarrow> ('a \<Rightarrow> fault + 'b) \<Rightarrow> fault + 'b" where
  "andthen r f = (case r of Inl e \<Rightarrow> Inl e | Inr x \<Rightarrow> f x)"

subsection \<open>The libav release functions, as the code calls them\<close>

text \<open>\<^verbatim>\<open>sws_freeContext(p)\<close> takes the pointer by value: the member keeps its address.\<close>

definition sws_freeContext :: "ptr \<Rightarrow> vstate \<Rightarrow> fault + vstate" where
  "sws_freeContext p s = (case p of None \<Rightarrow> Inr s | Some a \<Rightarrow> free_obj a s)"

text \<open>\<^verbatim>\<open>av_frame_free(&m_frame)\<close>: frees the frame and nulls the member; a null member is
  left alone.\<close>

definition av_frame_free_m_frame :: "vstate \<Rightarrow> fault + vstate" where
  "av_frame_free_m_frame s =
     (case m_frame s of None \<Rightarrow> Inr s
      | Some a \<Rightarrow> andthen (free_obj a s) (\<lambda>s'. Inr (s'\<lparr>m_frame := None\<rparr>)))"

definition av_frame_free_m_rgbFrame :: "vstate \<Rightarrow> fault + vstate" where
  "av_frame_free_m_rgbFrame s =
     (case m_rgbFrame s of None \<Rightarrow> Inr s
      | Some a \<Rightarrow> andthen (free_obj a s) (\<lambda>s'. Inr (s'\<lparr>m_rgbFrame := None\<rparr>)))"

text \<open>\<^verbatim>\<open>av_freep(&m_rgbFrame->data[0])\<close>: reads \<^verbatim>\<open>data[0]\<close> through \<^verbatim>\<open>m_rgbFrame\<close>, frees
  what it points to and stores null there.\<close>

definition av_freep_rgb_data0 :: "vstate \<Rightarrow> fault + vstate" where
  "av_freep_rgb_data0 s =
     andthen (deref (m_rgbFrame s) (heap s)) (\<lambda>ob.
       case ob of
         AVFrame d \<Rightarrow>
           andthen (case d of None \<Rightarrow> Inr s | Some p \<Rightarrow> free_obj p s) (\<lambda>s'.
             Inr (s'\<lparr>heap := (heap s')[the (m_rgbFrame s) := Some (AVFrame None)]\<rparr>))
       | _ \<Rightarrow> Inl UseAfterFree)"

text \<open>\<^verbatim>\<open>avcodec_free_context(&m_codecCtx)\<close>.\<close>

definition avcodec_free_context :: "vstate \<Rightarrow> fault + vstate" where
  "avcodec_free_context s =
     (case m_codecCtx s of None \<Rightarrow> Inr s
      | Some a \<Rightarrow> andthen (free_obj a s) (\<lambda>s'. Inr (s'\<lparr>m_codecCtx := None\<rparr>)))"

text \<open>\<^verbatim>\<open>avformat_close_input(&m_avFormat)\<close>: frees the demux context and nulls the member;
  an I/O context supplied by the caller is not freed by it.\<close>

definition avformat_close_input :: "vstate \<Rightarrow> fault + vstate" where
  "avformat_close_input s =
     (case m_avFormat s of None \<Rightarrow> Inr s
      | Some a \<Rightarrow> andthen (free_obj a s) (\<lambda>s'. Inr (s'\<lparr>m_avFormat := None\<rparr>)))"

text \<open>\<^verbatim>\<open>avio_context_free(&ioContext)\<close> on the local copy of \<^verbatim>\<open>pb\<close>.\<close>

definition avio_context_free :: "ptr \<Rightarrow> vstate \<Rightarrow> fault + vstate" where
  "avio_context_free io s = (case io of None \<Rightarrow> Inr s | Some a \<Rightarrow> free_obj a s)"

section \<open>Teardown\<close>

definition h264Exit :: "vstate \<Rightarrow> fault + vstate" where
  "h264Exit s0 =
     andthen (if m_swsContext s0 \<noteq> None then sws_freeContext (m_swsContext s0) s0
              else Inr s0) (\<lambda>s1.
     andthen (av_frame_free_m_frame s1) (\<lambda>s2.
     andthen (av_freep_rgb_data0 s2) (\<lambda>s3.
     andthen (av_frame_free_m_rgbFrame s3) (\<lambda>s4.
     andthen (if m_codecCtx s4 \<noteq> None then avcodec_free_context s4 else Inr s4) (\<lambda>s5.
       if m_avFormat s5 \<noteq> None then
         andthen (deref (m_avFormat s5) (heap s5)) (\<lambda>ob.
           case ob of
             AVFormatContext ioContext \<Rightarrow>
               andthen (avformat_close_input s5) (\<lambda>s6. avio_context_free ioContext s6)
           | _ \<Rightarrow> Inl UseAfterFree)
       else Inr s5)))))"

section \<open>Probing\<close>

text \<open>What the libav calls of \<^verbatim>\<open>h264Init\<close> deliver.\<close>

record init_env =
  image_alloc_ok :: bool          \<comment> \<open>\<^verbatim>\<open>av_image_alloc\<close> got its pixel storage\<close>
  open_input_ret :: int           \<comment> \<open>\<^verbatim>\<open>avformat_open_input\<close>\<close>
  find_stream_info_ret :: int     \<comment> \<open>\<^verbatim>\<open>avformat_find_stream_info\<close>\<close>

text \<open>
  The allocations asserted non-null by \<^verbatim>\<open>Q_ASSERT\<close> succeed. A failing
  \<^verbatim>\<open>avformat_open_input\<close> frees the context it was given and nulls the pointer
  (libavformat's contract); the I/O context of the caller stays allocated.
\<close>

definition h264Init :: "init_env \<Rightarrow> vstate \<Rightarrow> bool \<times> vstate" where
  "h264Init env s0 =
     (let (buf, s1) = new_obj Buffer s0;
          (fmt, s2) = new_obj (AVFormatContext None) s1;
          (io, s3) = new_obj (AVIOContext (Some buf)) s2;
          s4 = s3\<lparr>m_avFormat := Some fmt,
                  heap := (heap s3)[fmt := Some (AVFormatContext (Some io))]\<rparr>;
          (f, s5) = new_obj (AVFrame None) s4;
          s6 = s5\<lparr>m_frame := Some f\<rparr>;
          (r, s7) = new_obj (AVFrame None) s6;
          s8 = s7\<lparr>m_rgbFrame := Some r\<rparr>;
          s9 = (if image_alloc_ok env
                then (let (p, t) = new_obj ImageData s8
                      in t\<lparr>heap := (heap t)[r := Some (AVFrame (Some p))]\<rparr>)
                else s8)
      in if open_input_ret env < 0
         then (False, say ''FRAMEBUFFER can't open input:'' [open_input_ret env]
                 (s9\<lparr>heap := (heap s9)[fmt := None], m_avFormat := None\<rparr>))
         else if find_stream_info_ret env < 0
         then (False, say ''FRAMEBUFFER can't find stream information:''
                 [find_stream_info_ret env] s9)
         else (True, s9))"

section \<open>Stream selection\<close>

text \<open>What libav answers for one entry of \<^verbatim>\<open>m_avFormat->streams\<close>; the list of the entries
  is what the demux context holds once the probe has opened it.\<close>

record stream_env =
  codec_type_video :: bool        \<comment> \<open>\<^verbatim>\<open>codecpar->codec_type == AVMEDIA_TYPE_VIDEO\<close>\<close>
  decoder_found :: bool           \<comment> \<open>\<^verbatim>\<open>avcodec_find_decoder\<close> is not null\<close>
  context_allocated :: bool       \<comment> \<open>\<^verbatim>\<open>avcodec_alloc_context3\<close> is not null\<close>
  parameters_ret :: int           \<comment> \<open>\<^verbatim>\<open>avcodec_parameters_to_context\<close>\<close>
  context_type_video :: bool      \<comment> \<open>\<^verbatim>\<open>m_codecCtx->codec_type == AVMEDIA_TYPE_VIDEO\<close>\<close>
  open2_ret :: int                \<comment> \<open>\<^verbatim>\<open>avcodec_open2\<close>\<close>
  sws_created :: bool             \<comment> \<open>\<^verbatim>\<open>sws_getContext\<close> is not null\<close>

text \<open>One pass of the \<^verbatim>\<open>for\<close> body, for the \<^verbatim>\<open>unsigned int i\<close>; \<^verbatim>\<open>streamIndex = i\<close>
  converts to \<^verbatim>\<open>int\<close>.\<close>

definition select_step :: "nat \<Rightarrow> stream_env \<Rightarrow> int \<times> vstate \<Rightarrow> fault + (int \<times> vstate)" where
  "select_step i e acc =
     (case acc of (streamIndex, s0) \<Rightarrow>
        let s1 = s0\<lparr>m_avStream := Some i\<rparr> in
        if \<not> codec_type_video e then Inr (streamIndex, s1)
        else if \<not> decoder_found e then
          Inr (streamIndex, say ''FRAMEBUFFER can't find decoder for stream'' [int i] s1)
        else
          let s2 = (if context_allocated e
                    then (let (c, t) = new_obj AVCodecContext s1 in t\<lparr>m_codecCtx := Some c\<rparr>)
                    else s1\<lparr>m_codecCtx := None\<rparr>)
          in
          if m_codecCtx s2 = None then
            Inr (streamIndex,
              say ''FRAMEBUFFER can't allocate the decoder context for stream'' [int i] s2)
          else if parameters_ret e < 0 then
            andthen (avcodec_free_context
                (say ''FRAMEBUFFER failed to copy decoder parameters to input decoder context for stream''
                   [int i, parameters_ret e] s2))
              (\<lambda>s3. Inr (streamIndex, s3))
          else if \<not> context_type_video e then
            andthen (avcodec_free_context s2) (\<lambda>s3. Inr (streamIndex, s3))
          else if open2_ret e < 0 then
            andthen (avcodec_free_context
                (say ''FRAMEBUFFER failed to open decoder for stream'' [int i, open2_ret e] s2))
              (\<lambda>s3. Inr (streamIndex, s3))
          else
            let s3 = (if sws_created e
                      then (let (w, t) = new_obj SwsContext s2 in t\<lparr>m_swsContext := Some w\<rparr>)
                      else s2\<lparr>m_swsContext := None\<rparr>)
            in Inr (sint (word_of_nat i :: 32 word), s3))"

fun select_loop :: "nat \<Rightarrow> stream_env list \<Rightarrow> int \<times> vstate \<Rightarrow> fault + (int \<times> vstate)" where
  "select_loop i [] acc = Inr acc"
| "select_loop i (e # es) acc =
     (case select_step i e acc of
        Inl f \<Rightarrow> Inl f
      | Inr acc' \<Rightarrow> select_loop (Suc i) es acc')"

definition h264VideoStreamIndex :: "stream_env list \<Rightarrow> vstate \<Rightarrow> fault + (int \<times> vstate)" where
  "h264VideoStreamIndex streams s = select_loop 0 streams (- 1, s)"

text \<open>A stream for which every step of the body succeeds, up to \<^verbatim>\<open>avcodec_open2\<close>.\<close>

definition opens :: "stream_env \<Rightarrow> bool" where
  "opens e \<longleftrightarrow> codec_type_video e \<and> decoder_found e \<and> context_allocated e
     \<and> 0 \<le> parameters_ret e \<and> context_type_video e \<and> 0 \<le> open2_ret e"

section \<open>The decode loop\<close>

text \<open>What the environment answers during one pass of the \<^verbatim>\<open>while\<close> loop of
  \<^verbatim>\<open>h264Loop\<close>; an answer to a call the pass does not make is ignored. A script that
  ends while the loop still runs gives \<open>None\<close>: the loop has not returned. A crash gives
  \<open>Inl\<close>.\<close>

record iteration =
  interrupted :: bool             \<comment> \<open>\<^verbatim>\<open>isInterruptionRequested()\<close> at the loop head\<close>
  read_ret :: int                 \<comment> \<open>\<^verbatim>\<open>av_read_frame\<close>\<close>
  stream_index :: int             \<comment> \<open>\<^verbatim>\<open>pkt.stream_index\<close> after the read\<close>
  send_ret :: int                 \<comment> \<open>\<^verbatim>\<open>avcodec_send_packet\<close>\<close>
  recv_rets :: "int list"         \<comment> \<open>successive \<^verbatim>\<open>avcodec_receive_frame\<close> results\<close>

datatype flow = Next | Leave

text \<open>
  A call that is handed a member goes through it, and so does the code where it reads a
  field: a null pointer or a pointer to a freed object is the crash. Which members are
  valid is not a matter of the loop alone: \<^verbatim>\<open>av_image_alloc\<close> may have failed,
  \<^verbatim>\<open>sws_getContext\<close> may have returned null, and a stream that failed to open after one
  that opened has left \<^verbatim>\<open>m_codecCtx\<close> null.
\<close>

definition through :: "ptr \<Rightarrow> vstate \<Rightarrow> fault + obj" where
  "through p s = deref p (heap s)"

text \<open>\<^verbatim>\<open>av_read_frame(m_avFormat, &pkt)\<close> initialises the packet it is given without
  releasing what the packet held (libavformat: the packet "must not contain data that
  needs to be freed"); on success the packet owns a reference to the data read, on
  failure it is blank.\<close>

definition av_read_frame :: "int \<Rightarrow> vstate \<Rightarrow> fault + vstate" where
  "av_read_frame ret s =
     andthen (through (m_avFormat s) s) (\<lambda>_.
       Inr (s\<lparr>pkt_lost := pkt_lost s + (if pkt_owned s then 1 else 0),
              pkt_owned := (0 \<le> ret)\<rparr>))"

definition av_packet_unref :: "vstate \<Rightarrow> vstate" where
  "av_packet_unref s = s\<lparr>pkt_owned := False\<rparr>"

text \<open>\<^verbatim>\<open>avcodec_send_packet(m_codecCtx, &pkt)\<close> and
  \<^verbatim>\<open>avcodec_receive_frame(m_codecCtx, m_frame)\<close>: what they go through; their results are
  the environment's.\<close>

definition avcodec_send_packet :: "vstate \<Rightarrow> fault + unit" where
  "avcodec_send_packet s = andthen (through (m_codecCtx s) s) (\<lambda>_. Inr ())"

definition avcodec_receive_frame :: "vstate \<Rightarrow> fault + unit" where
  "avcodec_receive_frame s =
     andthen (through (m_codecCtx s) s) (\<lambda>_.
     andthen (through (m_frame s) s) (\<lambda>_. Inr ()))"

text \<open>\<^verbatim>\<open>sws_scale(m_swsContext, m_frame->data, ..., m_rgbFrame->data, ...)\<close>.\<close>

definition sws_scale :: "vstate \<Rightarrow> fault + unit" where
  "sws_scale s =
     andthen (through (m_swsContext s) s) (\<lambda>_.
     andthen (through (m_frame s) s) (\<lambda>_.
     andthen (through (m_rgbFrame s) s) (\<lambda>_. Inr ())))"

text \<open>The image built from the scaled frame, once the scanline copy has filled it.\<close>

definition frame_image :: "vstate \<Rightarrow> QImage" where
  "frame_image s =
     (let img = QImage_new (m_imageWidth s) (m_imageHeight s) Format_RGB888
      in if isNull img then img else img\<lparr>img_pixels := Picture\<rparr>)"

text \<open>
  \<^verbatim>\<open>QImage img(...)\<close>, \<^verbatim>\<open>data = m_rgbFrame->data[0]\<close> and the \<^verbatim>\<open>memcpy\<close> of every scanline. The
  copy reads \<^verbatim>\<open>bytesPerLine\<close> bytes from \<^verbatim>\<open>data\<close> for each of the \<^verbatim>\<open>m_imageHeight\<close> lines; a
  null image has no lines or lines of no bytes, and then nothing is read.
\<close>

definition copy_scanlines :: "vstate \<Rightarrow> fault + QImage" where
  "copy_scanlines s =
     andthen (through (m_rgbFrame s) s) (\<lambda>ob.
       case ob of
         AVFrame data \<Rightarrow>
           if isNull (frame_image s) then Inr (frame_image s)
           else andthen (through data s) (\<lambda>_. Inr (frame_image s))
       | _ \<Rightarrow> Inl UseAfterFree)"

text \<open>The inner \<^verbatim>\<open>while (ret >= 0)\<close>, entered after a successful send.\<close>

fun receive_frames :: "int list \<Rightarrow> vstate \<times> bool \<Rightarrow> (fault + vstate \<times> bool) option" where
  "receive_frames [] sr =
     (case avcodec_receive_frame (fst sr) of
        Inl f \<Rightarrow> Some (Inl f)
      | Inr _ \<Rightarrow> None)"
| "receive_frames (ret # rets) sr =
     (case avcodec_receive_frame (fst sr) of
        Inl f \<Rightarrow> Some (Inl f)
      | Inr _ \<Rightarrow>
          if ret = AVERROR_EAGAIN \<or> ret = AVERROR_EOF then Some (Inr sr)
          else if ret < 0 then
            Some (Inr (say ''FRAMEBUFFER avcodec_receive_frame() failed:'' [ret] (fst sr),
                       snd sr))
          else
            (case sws_scale (fst sr) of
               Inl f \<Rightarrow> Some (Inl f)
             | Inr _ \<Rightarrow>
                 (case copy_scanlines (fst sr) of
                    Inl f \<Rightarrow> Some (Inl f)
                  | Inr img \<Rightarrow> receive_frames rets (emit_imageReady img (fst sr), True))))"

definition h264_body ::
  "int \<Rightarrow> iteration \<Rightarrow> vstate \<times> bool \<Rightarrow> (fault + flow \<times> vstate \<times> bool) option" where
  "h264_body streamIndex it sr =
     (case sr of (s0, res) \<Rightarrow>
        (case av_read_frame (read_ret it) s0 of
           Inl f \<Rightarrow> Some (Inl f)
         | Inr s1 \<Rightarrow>
             let ret = read_ret it;
                 drainDecoder = (ret = AVERROR_EAGAIN \<or> ret = AVERROR_EOF)
             in
             if ret < 0 \<and> \<not> drainDecoder then
               Some (Inr (Leave, say ''FRAMEBUFFER av_read_frame() failed:'' [ret] s1, res))
             else if stream_index it = streamIndex \<or> drainDecoder then
               (case avcodec_send_packet s1 of
                  Inl f \<Rightarrow> Some (Inl f)
                | Inr _ \<Rightarrow>
                    if send_ret it < 0 then
                      (if send_ret it \<noteq> AVERROR_EAGAIN then
                         Some (Inr (Leave,
                           say ''FRAMEBUFFER avcodec_send_packet() failed:'' [send_ret it] s1,
                           res))
                       else Some (Inr (Next, s1, res)))
                    else
                      (case receive_frames (recv_rets it) (s1, res) of
                         None \<Rightarrow> None
                       | Some (Inl f) \<Rightarrow> Some (Inl f)
                       | Some (Inr (s2, res')) \<Rightarrow>
                           Some (Inr (if drainDecoder then Leave else Next,
                                      av_packet_unref s2, res'))))
             else Some (Inr (if drainDecoder then Leave else Next, av_packet_unref s1, res))))"

fun h264_while ::
  "int \<Rightarrow> iteration list \<Rightarrow> vstate \<times> bool \<Rightarrow> (fault + vstate \<times> bool) option" where
  "h264_while streamIndex [] sr = None"
| "h264_while streamIndex (it # its) sr =
     (if interrupted it then Some (Inr sr)
      else (case h264_body streamIndex it sr of
              None \<Rightarrow> None
            | Some (Inl f) \<Rightarrow> Some (Inl f)
            | Some (Inr (Leave, sr')) \<Rightarrow> Some (Inr sr')
            | Some (Inr (Next, sr')) \<Rightarrow> h264_while streamIndex its sr'))"

record h264_env =
  e_init :: init_env
  e_streams :: "stream_env list"
  e_iterations :: "iteration list"

text \<open>A crash in the loop ends the run there: the teardown is not reached.\<close>

definition h264Loop :: "h264_env \<Rightarrow> vstate \<Rightarrow> (fault + bool \<times> vstate) option" where
  "h264Loop env s0 =
     (case h264Init (e_init env) s0 of
        (False, s1) \<Rightarrow> Some (andthen (h264Exit s1) (\<lambda>s. Inr (False, s)))
      | (True, s1) \<Rightarrow>
          (case h264VideoStreamIndex (e_streams env) s1 of
             Inl f \<Rightarrow> Some (Inl f)
           | Inr (streamIndex, s2) \<Rightarrow>
               if streamIndex = - 1 then Some (andthen (h264Exit s2) (\<lambda>s. Inr (False, s)))
               else
                 (case h264_while streamIndex (e_iterations env)
                         (s2\<lparr>pkt_owned := False\<rparr>, False) of
                    None \<Rightarrow> None
                  | Some (Inl f) \<Rightarrow> Some (Inl f)
                  | Some (Inr (s3, res)) \<Rightarrow>
                      Some (andthen (h264Exit s3) (\<lambda>s. Inr (res, s))))))"

section \<open>The snapshot loop\<close>

record native_iteration =
  n_interrupted :: bool           \<comment> \<open>\<^verbatim>\<open>isInterruptionRequested()\<close> at the loop head\<close>
  isScreenAwake :: bool
  fetchScreenJpeg :: QImage
  fetchScreenRaw :: QImage
  fetchScreenPng :: QImage

text \<open>The image of one pass; \<open>None\<close> is the \<^verbatim>\<open>return\<close> of the last \<^verbatim>\<open>else\<close>.\<close>

definition native_image :: "native_iteration \<Rightarrow> vstate \<Rightarrow> QImage option" where
  "native_image it s =
     (if isScreenAwake it then
        (if m_videoMode s = NativeJpg then Some (fetchScreenJpeg it)
         else if m_videoMode s = NativeRaw then Some (fetchScreenRaw it)
         else if m_videoMode s = NativePng then Some (fetchScreenPng it)
         else None)
      else Some (fill_black (QImage_new (m_imageWidth s) (m_imageHeight s) Format_RGB888)))"

fun nativeLoop :: "native_iteration list \<Rightarrow> vstate \<Rightarrow> vstate option" where
  "nativeLoop [] s = None"
| "nativeLoop (it # its) s =
     (if n_interrupted it then Some s
      else (case native_image it s of
              None \<Rightarrow> Some s
            | Some img \<Rightarrow>
                nativeLoop its
                  ((emit_imageReady (scaledToWidth img (m_imageWidth s)) s)
                     \<lparr>slept := slept s + m_nativeInterval s\<rparr>)))"

section \<open>The byte source\<close>

text \<open>The values of \<^verbatim>\<open>QTcpSocket::SocketError\<close> the callback tells apart; every other value
  is \<open>OtherSocketError\<close>.\<close>

datatype SocketError = RemoteHostClosedError | SocketTimeoutError | OtherSocketError

text \<open>What the connection answers during one pass of the wait loop of \<^verbatim>\<open>read_packet\<close>.\<close>

record wait_step =
  isConnected :: bool
  connectToDevice :: bool         \<comment> \<open>asked only when not connected\<close>
  send_ok :: bool                 \<comment> \<open>\<^verbatim>\<open>m_adb->send(cmd)\<close> of the capture command\<close>
  waitForReadyRead :: bool
  w_interrupted :: bool           \<comment> \<open>\<^verbatim>\<open>isInterruptionRequested()\<close> after the wait\<close>
  socket_error :: SocketError
  bytesAvailable :: int           \<comment> \<open>read again after a successful wait\<close>

text \<open>\<^verbatim>\<open>h264Connect\<close>: connect to the device, then send the capture command; the result
  and what it logs. The text of the command, built from the configured size, is not
  modelled.\<close>

definition h264Connect :: "wait_step \<Rightarrow> bool \<times> logline list" where
  "h264Connect w =
     (if \<not> connectToDevice w then (False, [])
      else if \<not> send_ok w then (False, [(''FRAMEBUFFER error executing'', [])])
      else (True, [(''FRAMEBUFFER connected'', [])]))"

datatype wait_exit = Return int | Available int

text \<open>The \<^verbatim>\<open>while (len == 0)\<close> loop: it either returns from the callback or is left
  with a length other than 0.\<close>

fun wait_loop :: "int \<Rightarrow> wait_step list \<Rightarrow> logline list \<Rightarrow> (wait_exit \<times> logline list) option" where
  "wait_loop len [] lg = (if len \<noteq> 0 then Some (Available len, lg) else None)"
| "wait_loop len (w # ws) lg =
     (if len \<noteq> 0 then Some (Available len, lg)
      else if \<not> isConnected w \<and> \<not> fst (h264Connect w)
      then Some (Return (- 1), lg @ snd (h264Connect w))
      else
        let lg1 = (if \<not> isConnected w then lg @ snd (h264Connect w) else lg) in
        if w_interrupted w then Some (Return (- 1), lg1)
        else if \<not> waitForReadyRead w then
          (if socket_error w = RemoteHostClosedError then
             Some (Return (- 1), lg1 @ [(''FRAMEBUFFER host disconnected '', [])])
           else if socket_error w \<noteq> SocketTimeoutError then
             Some (Return (- 1), lg1 @ [(''FRAMEBUFFER read failed:'', [])])
           else wait_loop len ws lg1)
        else wait_loop (bytesAvailable w) ws lg1)"

text \<open>The callback: the first \<^verbatim>\<open>bytesAvailable()\<close>, the wait loop, the clamp to
  \<^verbatim>\<open>buf_size\<close> and the \<^verbatim>\<open>read\<close>. The \<^verbatim>\<open>qint64\<close> length is returned as an \<^verbatim>\<open>int\<close>; after
  the clamp it is at most \<^verbatim>\<open>buf_size\<close>, so the conversion changes no count that is not
  negative.\<close>

definition read_packet :: "int \<Rightarrow> wait_step list \<Rightarrow> int \<Rightarrow> bool \<Rightarrow> (int \<times> logline list) option" where
  "read_packet avail ws buf_size read_ok =
     (case wait_loop avail ws [] of
        None \<Rightarrow> None
      | Some (Return r, lg) \<Rightarrow> Some (r, lg)
      | Some (Available len, lg) \<Rightarrow>
          (let len' = (if len > buf_size then buf_size else len)
           in if \<not> read_ok then Some (- 1, lg) else Some (len', lg)))"

section \<open>Predicates of the statements and proofs\<close>

text \<open>
  The remaining definitions do not model code. They name what the loop may change
  (\<open>advanced\<close>), which pointers are null or point to a live object of their kind
  (\<open>session_ok\<close> and its parts), what a pass of the wait loop logs, and the concrete
  objects and environments at which the theorems are evaluated.
\<close>

text \<open>From \<open>s\<close> with flag \<open>res\<close> the loop reached \<open>s'\<close> with flag \<open>res'\<close>: it appended
  \<open>n\<close> copies of the frame image and some log lines, touched the packet, and the flag is
  set exactly if it was set or a frame was appended.\<close>

definition advanced :: "vstate \<Rightarrow> bool \<Rightarrow> vstate \<Rightarrow> bool \<Rightarrow> bool" where
  "advanced s res s' res' \<longleftrightarrow>
     (\<exists>n lg ow lo. s' = s\<lparr>emitted := emitted s @ replicate n (frame_image s),
         dbg := dbg s @ lg, pkt_owned := ow, pkt_lost := lo\<rparr> \<and> res' = (res \<or> 0 < n))"

text \<open>A pointer is null or points to a live object of kind \<open>K\<close>.\<close>

definition ptr_to :: "heap \<Rightarrow> ptr \<Rightarrow> (obj \<Rightarrow> bool) \<Rightarrow> bool" where
  "ptr_to h p K \<longleftrightarrow>
     (case p of None \<Rightarrow> True
      | Some a \<Rightarrow> (case cell h a of None \<Rightarrow> False | Some ob \<Rightarrow> K ob))"

definition is_frame :: "obj \<Rightarrow> bool" where
  "is_frame ob \<longleftrightarrow> (case ob of AVFrame d \<Rightarrow> True | _ \<Rightarrow> False)"

definition is_io :: "obj \<Rightarrow> bool" where
  "is_io ob \<longleftrightarrow> (case ob of AVIOContext b \<Rightarrow> True | _ \<Rightarrow> False)"

definition is_format :: "obj \<Rightarrow> bool" where
  "is_format ob \<longleftrightarrow> (case ob of AVFormatContext b \<Rightarrow> True | _ \<Rightarrow> False)"

text \<open>The members of a session whose resources are all null or live.\<close>

definition sws_ok :: "vstate \<Rightarrow> bool" where
  "sws_ok s \<longleftrightarrow> ptr_to (heap s) (m_swsContext s) (\<lambda>x. x = SwsContext)"

definition codec_ok :: "vstate \<Rightarrow> bool" where
  "codec_ok s \<longleftrightarrow> ptr_to (heap s) (m_codecCtx s) (\<lambda>x. x = AVCodecContext)"

definition frame_ok :: "vstate \<Rightarrow> bool" where
  "frame_ok s \<longleftrightarrow> ptr_to (heap s) (m_frame s) is_frame"

definition rgb_ok :: "vstate \<Rightarrow> bool" where
  "rgb_ok s \<longleftrightarrow>
     (\<exists>r d. m_rgbFrame s = Some r \<and> cell (heap s) r = Some (AVFrame d)
        \<and> ptr_to (heap s) d (\<lambda>x. x = ImageData) \<and> m_frame s \<noteq> Some r)"

definition fmt_ok :: "vstate \<Rightarrow> bool" where
  "fmt_ok s \<longleftrightarrow>
     (m_avFormat s = None \<or>
      (\<exists>a io. m_avFormat s = Some a \<and> cell (heap s) a = Some (AVFormatContext io)
         \<and> ptr_to (heap s) io is_io))"

definition session_ok :: "vstate \<Rightarrow> bool" where
  "session_ok s \<longleftrightarrow> sws_ok s \<and> codec_ok s \<and> frame_ok s \<and> rgb_ok s \<and> fmt_ok s"

text \<open>Every live object of kind \<open>K\<close> in \<open>h\<close> is still there in \<open>h'\<close>.\<close>

definition keeps :: "(obj \<Rightarrow> bool) \<Rightarrow> heap \<Rightarrow> heap \<Rightarrow> bool" where
  "keeps K h h' \<longleftrightarrow> (\<forall>a ob. cell h a = Some ob \<longrightarrow> K ob \<longrightarrow> cell h' a = Some ob)"

text \<open>The heap after freeing what \<open>p\<close> points to.\<close>

definition drop_cell :: "ptr \<Rightarrow> heap \<Rightarrow> heap" where
  "drop_cell p h = (case p of None \<Rightarrow> h | Some a \<Rightarrow> h[a := None])"

text \<open>The emitted frames and the configured size are unchanged.\<close>

definition same_cfg :: "vstate \<Rightarrow> vstate \<Rightarrow> bool" where
  "same_cfg s s' \<longleftrightarrow> emitted s' = emitted s \<and> m_imageWidth s' = m_imageWidth s
     \<and> m_imageHeight s' = m_imageHeight s"

text \<open>Nothing live was freed, and the frames, the demux context and the configuration
  are the same.\<close>

definition grows :: "vstate \<Rightarrow> vstate \<Rightarrow> bool" where
  "grows s s' \<longleftrightarrow> (\<forall>a ob. cell (heap s) a = Some ob \<longrightarrow> cell (heap s') a = Some ob)
     \<and> m_frame s' = m_frame s \<and> m_rgbFrame s' = m_rgbFrame s \<and> m_avFormat s' = m_avFormat s
     \<and> same_cfg s s'"

text \<open>The index \<^verbatim>\<open>h264VideoStreamIndex\<close> computes, without the state.\<close>

fun last_opened :: "nat \<Rightarrow> stream_env list \<Rightarrow> int \<Rightarrow> int" where
  "last_opened i [] r = r"
| "last_opened i (e # es) r =
     last_opened (Suc i) es (if opens e then sint (word_of_nat i :: 32 word) else r)"

text \<open>A new object configured for 480 x 800, and environments for it.\<close>

definition idle :: vstate where
  "idle = \<lparr>m_imageWidth = 480, m_imageHeight = 800, m_nativeInterval = 100,
     m_videoMode = FastH264, m_avFormat = None, m_avStream = None, m_codecCtx = None,
     m_swsContext = None, m_frame = None, m_rgbFrame = None, heap = [], pkt_owned = False,
     pkt_lost = 0, emitted = [], dbg = [], slept = 0\<rparr>"

definition probe_ok :: init_env where
  "probe_ok = \<lparr>image_alloc_ok = True, open_input_ret = 0, find_stream_info_ret = 0\<rparr>"

definition h264_stream :: stream_env where
  "h264_stream = \<lparr>codec_type_video = True, decoder_found = True, context_allocated = True,
     parameters_ret = 0, context_type_video = True, open2_ret = 0, sws_created = True\<rparr>"

definition audio_stream :: stream_env where
  "audio_stream = \<lparr>codec_type_video = False, decoder_found = True, context_allocated = True,
     parameters_ret = 0, context_type_video = False, open2_ret = 0, sws_created = True\<rparr>"

definition unit_it :: iteration where
  "unit_it = \<lparr>interrupted = False, read_ret = 0, stream_index = 0, send_ret = 0,
     recv_rets = [0, AVERROR_EAGAIN]\<rparr>"

definition eof_it :: iteration where
  "eof_it = \<lparr>interrupted = False, read_ret = AVERROR_EOF, stream_index = 0, send_ret = 0,
     recv_rets = [AVERROR_EOF]\<rparr>"

definition one_unit_session :: h264_env where
  "one_unit_session = \<lparr>e_init = probe_ok, e_streams = [h264_stream],
     e_iterations = [unit_it, eof_it]\<rparr>"

text \<open>The new object after a successful probe, and after the selection of its one
  video stream: the state in which the decode loop starts.\<close>

definition after_probe :: vstate where
  "after_probe = snd (h264Init probe_ok idle)"

definition after_selection :: vstate where
  "after_selection =
     (case h264VideoStreamIndex [h264_stream] after_probe of
        Inl f \<Rightarrow> after_probe | Inr r \<Rightarrow> snd r)"

text \<open>A pass of the wait loop that delivers nothing and ends nothing: connected (or
  reconnected), not interrupted, and either a timeout or a wake-up with no bytes.\<close>

definition idle_wait :: "wait_step \<Rightarrow> bool" where
  "idle_wait w \<longleftrightarrow> (isConnected w \<or> fst (h264Connect w)) \<and> \<not> w_interrupted w
     \<and> (if waitForReadyRead w then bytesAvailable w = 0
         else socket_error w = SocketTimeoutError)"

definition timeout_step :: wait_step where
  "timeout_step = \<lparr>isConnected = True, connectToDevice = True, send_ok = True,
     waitForReadyRead = False, w_interrupted = False, socket_error = SocketTimeoutError,
     bytesAvailable = 0\<rparr>"

definition data_step :: wait_step where
  "data_step = \<lparr>isConnected = True, connectToDevice = True, send_ok = True,
     waitForReadyRead = True, w_interrupted = False, socket_error = SocketTimeoutError,
     bytesAvailable = 20000\<rparr>"

definition remote_closed_step :: wait_step where
  "remote_closed_step = \<lparr>isConnected = True, connectToDevice = True, send_ok = True,
     waitForReadyRead = False, w_interrupted = False, socket_error = RemoteHostClosedError,
     bytesAvailable = 0\<rparr>"

definition other_error_step :: wait_step where
  "other_error_step = \<lparr>isConnected = True, connectToDevice = True, send_ok = True,
     waitForReadyRead = False, w_interrupted = False, socket_error = OtherSocketError,
     bytesAvailable = 0\<rparr>"

text \<open>What a pass of the wait loop logs before it waits: the lines of \<^verbatim>\<open>h264Connect\<close>
  when the connection was down.\<close>

definition reconnect_log :: "wait_step \<Rightarrow> logline list" where
  "reconnect_log w = (if isConnected w then [] else snd (h264Connect w))"

definition stop_it :: iteration where
  "stop_it = \<lparr>interrupted = True, read_ret = 0, stream_index = 0, send_ret = 0,
     recv_rets = [0, AVERROR_EAGAIN]\<rparr>"

definition starved_it :: iteration where
  "starved_it = \<lparr>interrupted = False, read_ret = AVERROR_EAGAIN, stream_index = 0,
     send_ret = 0, recv_rets = [AVERROR_EAGAIN]\<rparr>"

definition refused_it :: iteration where
  "refused_it = \<lparr>interrupted = False, read_ret = 0, stream_index = 0,
     send_ret = AVERROR_EAGAIN, recv_rets = []\<rparr>"

definition read_error_it :: iteration where
  "read_error_it = \<lparr>interrupted = False, read_ret = - 1, stream_index = 0,
     send_ret = 0, recv_rets = [0, AVERROR_EAGAIN]\<rparr>"

text \<open>Passes of the wait loop: a reconnect followed by a timeout, a reconnect that is
  refused, and an interruption seen after the wait.\<close>

definition reconnect_step :: wait_step where
  "reconnect_step = \<lparr>isConnected = False, connectToDevice = True, send_ok = True,
     waitForReadyRead = False, w_interrupted = False, socket_error = SocketTimeoutError,
     bytesAvailable = 0\<rparr>"

definition refused_step :: wait_step where
  "refused_step = \<lparr>isConnected = False, connectToDevice = False, send_ok = True,
     waitForReadyRead = False, w_interrupted = False, socket_error = SocketTimeoutError,
     bytesAvailable = 0\<rparr>"

definition interrupted_step :: wait_step where
  "interrupted_step = \<lparr>isConnected = True, connectToDevice = True, send_ok = True,
     waitForReadyRead = False, w_interrupted = True, socket_error = SocketTimeoutError,
     bytesAvailable = 0\<rparr>"

definition snap_stop :: native_iteration where
  "snap_stop = \<lparr>n_interrupted = True, isScreenAwake = True, fetchScreenJpeg = null_image,
     fetchScreenRaw = null_image, fetchScreenPng = null_image\<rparr>"

definition screen :: QImage where
  "screen = \<lparr>img_width = 1080, img_height = 1920, img_format = Format_Device,
     img_pixels = Picture\<rparr>"

definition snap_awake :: native_iteration where
  "snap_awake = \<lparr>n_interrupted = False, isScreenAwake = True, fetchScreenJpeg = screen,
     fetchScreenRaw = screen, fetchScreenPng = screen\<rparr>"

definition snap_asleep :: native_iteration where
  "snap_asleep = \<lparr>n_interrupted = False, isScreenAwake = False, fetchScreenJpeg = screen,
     fetchScreenRaw = screen, fetchScreenPng = screen\<rparr>"

definition stopped_session :: h264_env where
  "stopped_session = \<lparr>e_init = probe_ok, e_streams = [h264_stream],
     e_iterations = [stop_it, unit_it, eof_it]\<rparr>"

definition snapshot_state :: vstate where
  "snapshot_state = idle\<lparr>m_videoMode := NativePng\<rparr>"

definition probe_failed :: init_env where
  "probe_failed = \<lparr>image_alloc_ok = True, open_input_ret = - 1, find_stream_info_ret = 0\<rparr>"

definition probe_failure_session :: h264_env where
  "probe_failure_session = \<lparr>e_init = probe_failed, e_streams = [h264_stream],
     e_iterations = [unit_it, eof_it]\<rparr>"

definition read_failure_session :: h264_env where
  "read_failure_session = \<lparr>e_init = probe_ok, e_streams = [audio_stream, h264_stream],
     e_iterations = [unit_it\<lparr>stream_index := 1\<rparr>, read_error_it]\<rparr>"

text \<open>Sessions that end before the loop: no video stream, and a probe that fails with
  the interruption flag already set (the fill returns \<open>- 1\<close> on it). Their scripts hold the
  flag for the loop head all the same.\<close>

definition audio_only_session :: h264_env where
  "audio_only_session = \<lparr>e_init = probe_ok, e_streams = [audio_stream],
     e_iterations = [stop_it]\<rparr>"

definition interrupted_probe_session :: h264_env where
  "interrupted_probe_session = \<lparr>e_init = probe_failed, e_streams = [],
     e_iterations = [stop_it]\<rparr>"

text \<open>A session whose \<^verbatim>\<open>av_image_alloc\<close> failed: the result is ignored by
  \<^verbatim>\<open>h264Init\<close>.\<close>

definition unallocated_image_session :: h264_env where
  "unallocated_image_session = \<lparr>e_init = probe_ok\<lparr>image_alloc_ok := False\<rparr>,
     e_streams = [h264_stream], e_iterations = [unit_it, eof_it]\<rparr>"

text \<open>The object after a first session that decoded one unit and was torn down.\<close>

definition after_first_session :: vstate where
  "after_first_session =
     (case h264Loop one_unit_session idle of
        Some (Inr r) \<Rightarrow> snd r | _ \<Rightarrow> idle)"

section \<open>What the decode loop changes\<close>

lemma frame_image_upd [simp]:
  "frame_image (s\<lparr>emitted := e\<rparr>) = frame_image s"
  "frame_image (s\<lparr>dbg := d\<rparr>) = frame_image s"
  "frame_image (s\<lparr>pkt_owned := b\<rparr>) = frame_image s"
  "frame_image (s\<lparr>pkt_lost := n\<rparr>) = frame_image s"
  by (simp_all add: frame_image_def)

lemma advanced_refl: "advanced s res s res"
proof -
  have "s = s\<lparr>emitted := emitted s @ replicate 0 (frame_image s), dbg := dbg s @ [],
      pkt_owned := pkt_owned s, pkt_lost := pkt_lost s\<rparr> \<and> res = (res \<or> 0 < (0::nat))"
    by simp
  then show ?thesis unfolding advanced_def by blast
qed

lemma advanced_trans:
  assumes "advanced s res s' res'" and "advanced s' res' s'' res''"
  shows "advanced s res s'' res''"
proof -
  from assms(1) obtain n lg ow lo where 1:
    "s' = s\<lparr>emitted := emitted s @ replicate n (frame_image s),
         dbg := dbg s @ lg, pkt_owned := ow, pkt_lost := lo\<rparr>" "res' = (res \<or> 0 < n)"
    unfolding advanced_def by blast
  from assms(2) obtain m lg' ow' lo' where 2:
    "s'' = s'\<lparr>emitted := emitted s' @ replicate m (frame_image s'),
         dbg := dbg s' @ lg', pkt_owned := ow', pkt_lost := lo'\<rparr>" "res'' = (res' \<or> 0 < m)"
    unfolding advanced_def by blast
  have "s'' = s\<lparr>emitted := emitted s @ replicate (n + m) (frame_image s),
         dbg := dbg s @ (lg @ lg'), pkt_owned := ow', pkt_lost := lo'\<rparr>
       \<and> res'' = (res \<or> 0 < n + m)"
    using 1 2 by (auto simp: replicate_add)
  then show ?thesis unfolding advanced_def by blast
qed

lemma advanced_say: "advanced s res (say msg codes s) res"
proof -
  have "say msg codes s = s\<lparr>emitted := emitted s @ replicate 0 (frame_image s),
      dbg := dbg s @ [(msg, codes)],
      pkt_owned := pkt_owned s, pkt_lost := pkt_lost s\<rparr> \<and> res = (res \<or> 0 < (0::nat))"
    by (simp add: say_def)
  then show ?thesis unfolding advanced_def by blast
qed

lemma advanced_emit: "advanced s res (emit_imageReady (frame_image s) s) True"
  unfolding advanced_def
  by (rule exI [of _ 1], rule exI [of _ "[]"], rule exI [of _ "pkt_owned s"],
      rule exI [of _ "pkt_lost s"]) (simp add: emit_imageReady_def)

lemma av_read_frame_Inr:
  "av_read_frame ret s = Inr s1 \<Longrightarrow>
     s1 = s\<lparr>pkt_lost := pkt_lost s + (if pkt_owned s then 1 else 0), pkt_owned := (0 \<le> ret)\<rparr>"
  unfolding av_read_frame_def andthen_def by (auto split: sum.splits)

lemma advanced_read: "av_read_frame ret s = Inr s1 \<Longrightarrow> advanced s res s1 res"
proof -
  assume "av_read_frame ret s = Inr s1"
  then have "s1 = s\<lparr>emitted := emitted s @ replicate 0 (frame_image s),
      dbg := dbg s @ [],
      pkt_owned := (0 \<le> ret), pkt_lost := pkt_lost s + (if pkt_owned s then 1 else 0)\<rparr>
      \<and> res = (res \<or> 0 < (0::nat))"
    by (auto dest!: av_read_frame_Inr)
  then show ?thesis unfolding advanced_def by blast
qed

lemma copy_scanlines_Inr: "copy_scanlines s = Inr img \<Longrightarrow> img = frame_image s"
  unfolding copy_scanlines_def andthen_def
  by (auto split: sum.splits obj.splits if_splits)

lemma advanced_unref: "advanced s res (av_packet_unref s) res"
proof -
  have "av_packet_unref s = s\<lparr>emitted := emitted s @ replicate 0 (frame_image s),
      dbg := dbg s @ [],
      pkt_owned := False, pkt_lost := pkt_lost s\<rparr>
      \<and> res = (res \<or> 0 < (0::nat))"
    by (simp add: av_packet_unref_def)
  then show ?thesis unfolding advanced_def by blast
qed

lemma receive_frames_advanced:
  "receive_frames rets (s, res) = Some (Inr (s', res')) \<Longrightarrow> advanced s res s' res'"
proof (induction rets arbitrary: s res)
  case Nil
  then show ?case by (simp split: sum.splits)
next
  case (Cons ret rets)
  show ?case
  proof (cases "ret = AVERROR_EAGAIN \<or> ret = AVERROR_EOF")
    case True
    with Cons.prems show ?thesis by (auto simp: advanced_refl split: sum.splits)
  next
    case False
    show ?thesis
    proof (cases "ret < 0")
      case True
      with False Cons.prems show ?thesis by (auto simp: advanced_say split: sum.splits)
    next
      case nonneg: False
      with False Cons.prems obtain img where c: "copy_scanlines s = Inr img"
        and r: "receive_frames rets (emit_imageReady img s, True) = Some (Inr (s', res'))"
        by (auto split: sum.splits)
      from c have "img = frame_image s" by (rule copy_scanlines_Inr)
      with r have "receive_frames rets (emit_imageReady (frame_image s) s, True)
          = Some (Inr (s', res'))" by simp
      from Cons.IH [OF this] advanced_emit [of s res] show ?thesis
        by (rule advanced_trans [rotated])
    qed
  qed
qed

lemma h264_body_advanced:
  assumes "h264_body streamIndex it (s, res) = Some (Inr (fl, s', res'))"
  shows "advanced s res s' res'"
proof -
  from assms obtain s1 where r: "av_read_frame (read_ret it) s = Inr s1"
    unfolding h264_body_def by (auto split: sum.splits)
  have a1: "advanced s r s1 r" for r
    by (rule advanced_read [OF r])
  have say1: "advanced s r (say msg codes s1) r" for r msg codes
    by (rule advanced_trans [OF a1 advanced_say])
  have unref1: "advanced s r (av_packet_unref s1) r" for r
    by (rule advanced_trans [OF a1 advanced_unref])
  have recv1: "receive_frames rets (s1, r) = Some (Inr (s2, r2))
      \<Longrightarrow> advanced s r (av_packet_unref s2) r2" for s2 r2 r rets
    by (blast intro: advanced_trans a1 receive_frames_advanced advanced_unref)
  have "case h264_body streamIndex it (s, res) of
          Some (Inr (fl, s', res')) \<Rightarrow> advanced s res s' res' | _ \<Rightarrow> True"
    unfolding h264_body_def Let_def
    by (simp add: r a1 say1 unref1 recv1 split: option.splits sum.splits)
  with assms show ?thesis by simp
qed

lemma h264_while_advanced:
  "h264_while streamIndex its (s, res) = Some (Inr (s', res')) \<Longrightarrow> advanced s res s' res'"
proof (induction its arbitrary: s res)
  case Nil
  then show ?case by simp
next
  case (Cons it its)
  show ?case
  proof (cases "interrupted it")
    case True
    with Cons.prems show ?thesis by (simp add: advanced_refl)
  next
    case False
    with Cons.prems obtain fl s1 r1 where
      b: "h264_body streamIndex it (s, res) = Some (Inr (fl, s1, r1))"
      by (auto split: option.splits sum.splits)
    note a1 = h264_body_advanced [OF b]
    show ?thesis
    proof (cases fl)
      case Next
      with False b Cons.prems have "h264_while streamIndex its (s1, r1) = Some (Inr (s', res'))"
        by simp
      from advanced_trans [OF a1 Cons.IH [OF this]] show ?thesis .
    next
      case Leave
      with False b Cons.prems have "s' = s1" "res' = r1" by auto
      with a1 show ?thesis by simp
    qed
  qed
qed

section \<open>The heap and the teardown\<close>

lemma cell_Nil [simp]: "cell [] a = None"
  by (simp add: cell_def)

lemma cell_Cons [simp]: "cell (x # xs) a = (case a of 0 \<Rightarrow> x | Suc n \<Rightarrow> cell xs n)"
  by (auto simp: cell_def split: nat.splits)

lemma cell_append [simp]:
  "cell (h @ g) a = (if a < length h then cell h a else cell g (a - length h))"
  by (auto simp: cell_def nth_append)

lemma cell_beyond: "length h \<le> a \<Longrightarrow> cell h a = None"
  by (simp add: cell_def)

lemma cell_update [simp]:
  "cell (h[a := x]) b = (if b = a \<and> a < length h then x else cell h b)"
  by (auto simp: cell_def)

lemma cell_Some_less: "cell h a = Some ob \<Longrightarrow> a < length h"
  by (auto simp: cell_def split: if_splits)

lemma cell_length [simp]: "cell h (length h) = None"
  by (simp add: cell_def)

lemma ptr_to_None [simp]: "ptr_to h None K"
  by (simp add: ptr_to_def)

lemma ptr_to_Some: "ptr_to h (Some a) K \<longleftrightarrow> (\<exists>ob. cell h a = Some ob \<and> K ob)"
  by (auto simp: ptr_to_def split: option.splits)

lemma ptr_to_keeps: "ptr_to h p K \<Longrightarrow> keeps K h h' \<Longrightarrow> ptr_to h' p K"
  by (cases p) (auto simp: ptr_to_Some keeps_def)

lemma keeps_append: "keeps K h (h @ [x])"
  by (auto simp: keeps_def dest: cell_Some_less)

lemma keeps_drop: "ptr_to h p K' \<Longrightarrow> (\<And>ob. K ob \<Longrightarrow> \<not> K' ob) \<Longrightarrow> keeps K h (drop_cell p h)"
  by (cases p) (auto simp: keeps_def drop_cell_def ptr_to_Some)

lemma keeps_update: "cell h a = Some ob \<Longrightarrow> \<not> K ob \<Longrightarrow> keeps K h (h[a := x])"
  by (auto simp: keeps_def)

lemma keeps_trans: "keeps K h h' \<Longrightarrow> keeps K h' h'' \<Longrightarrow> keeps K h h''"
  by (auto simp: keeps_def)

lemma free_obj_live:
  "cell (heap s) a = Some ob \<Longrightarrow> free_obj a s = Inr (s\<lparr>heap := (heap s)[a := None]\<rparr>)"
  by (simp add: free_obj_def release_def)

lemma release_ptr:
  "ptr_to (heap s) p K \<Longrightarrow>
   (case p of None \<Rightarrow> Inr s | Some a \<Rightarrow> free_obj a s) = Inr (s\<lparr>heap := drop_cell p (heap s)\<rparr>)"
  by (cases p) (auto simp: ptr_to_Some drop_cell_def free_obj_live)

lemma andthen_Inr [simp]: "andthen (Inr x) f = f x"
  by (simp add: andthen_def)

lemma andthen_Inl [simp]: "andthen (Inl e) f = Inl e"
  by (simp add: andthen_def)

lemma sws_ok_keeps:
  "sws_ok s \<Longrightarrow> keeps (\<lambda>x. x = SwsContext) (heap s) (heap s') \<Longrightarrow>
   m_swsContext s' = m_swsContext s \<Longrightarrow> sws_ok s'"
  by (auto simp: sws_ok_def intro: ptr_to_keeps)

lemma codec_ok_keeps:
  "codec_ok s \<Longrightarrow> keeps (\<lambda>x. x = AVCodecContext) (heap s) (heap s') \<Longrightarrow>
   m_codecCtx s' = m_codecCtx s \<Longrightarrow> codec_ok s'"
  by (auto simp: codec_ok_def intro: ptr_to_keeps)

lemma frame_ok_keeps:
  "frame_ok s \<Longrightarrow> keeps is_frame (heap s) (heap s') \<Longrightarrow>
   m_frame s' = m_frame s \<Longrightarrow> frame_ok s'"
  by (auto simp: frame_ok_def intro: ptr_to_keeps)

lemma rgb_ok_keeps:
  assumes "rgb_ok s" "keeps is_frame (heap s) (heap s')"
    "keeps (\<lambda>x. x = ImageData) (heap s) (heap s')"
    "m_rgbFrame s' = m_rgbFrame s" "m_frame s' = m_frame s \<or> m_frame s' = None"
  shows "rgb_ok s'"
proof -
  from assms(1) obtain r d where r: "m_rgbFrame s = Some r" "cell (heap s) r = Some (AVFrame d)"
    "ptr_to (heap s) d (\<lambda>x. x = ImageData)" "m_frame s \<noteq> Some r"
    unfolding rgb_ok_def by blast
  from r(2) assms(2) have "cell (heap s') r = Some (AVFrame d)"
    by (simp add: keeps_def is_frame_def)
  moreover from r(3) assms(3) have "ptr_to (heap s') d (\<lambda>x. x = ImageData)"
    by (rule ptr_to_keeps)
  ultimately show ?thesis
    using r(1,4) assms(4,5) unfolding rgb_ok_def by auto
qed

lemma fmt_ok_keeps:
  assumes "fmt_ok s" "keeps is_format (heap s) (heap s')" "keeps is_io (heap s) (heap s')"
    "m_avFormat s' = m_avFormat s"
  shows "fmt_ok s'"
proof (cases "m_avFormat s")
  case None
  with assms(4) show ?thesis by (simp add: fmt_ok_def)
next
  case (Some a)
  with assms(1) obtain io where a: "cell (heap s) a = Some (AVFormatContext io)"
    "ptr_to (heap s) io is_io"
    unfolding fmt_ok_def by auto
  from a(1) assms(2) have "cell (heap s') a = Some (AVFormatContext io)"
    by (simp add: keeps_def is_format_def)
  moreover from a(2) assms(3) have "ptr_to (heap s') io is_io"
    by (rule ptr_to_keeps)
  ultimately show ?thesis using Some assms(4) unfolding fmt_ok_def by auto
qed

text \<open>Each release of \<^verbatim>\<open>h264Exit\<close> succeeds on a pointer that is null or live.\<close>

lemma frame_free_ok:
  "frame_ok s \<Longrightarrow> av_frame_free_m_frame s
     = Inr (s\<lparr>heap := drop_cell (m_frame s) (heap s), m_frame := None\<rparr>)"
  by (cases "m_frame s")
     (auto simp: frame_ok_def ptr_to_Some av_frame_free_m_frame_def drop_cell_def free_obj_live)

lemma codec_free_ok:
  "codec_ok s \<Longrightarrow> avcodec_free_context s
     = Inr (s\<lparr>heap := drop_cell (m_codecCtx s) (heap s), m_codecCtx := None\<rparr>)"
  by (cases "m_codecCtx s")
     (auto simp: codec_ok_def ptr_to_Some avcodec_free_context_def drop_cell_def free_obj_live)

lemma sws_free_ok:
  "sws_ok s \<Longrightarrow>
   (if m_swsContext s \<noteq> None then sws_freeContext (m_swsContext s) s else Inr s)
     = Inr (s\<lparr>heap := drop_cell (m_swsContext s) (heap s)\<rparr>)"
  by (cases "m_swsContext s")
     (auto simp: sws_ok_def ptr_to_Some sws_freeContext_def drop_cell_def free_obj_live)

lemma rgb_data_free_ok:
  assumes "m_rgbFrame s = Some r" "cell (heap s) r = Some (AVFrame d)"
    "ptr_to (heap s) d (\<lambda>x. x = ImageData)"
  shows "av_freep_rgb_data0 s
     = Inr (s\<lparr>heap := (drop_cell d (heap s))[r := Some (AVFrame None)]\<rparr>)"
  using assms
  by (cases d)
     (auto simp: av_freep_rgb_data0_def deref_def ptr_to_Some drop_cell_def free_obj_live)

lemma rgb_free_ok:
  assumes "m_rgbFrame s = Some r" "cell (heap s) r = Some ob"
  shows "av_frame_free_m_rgbFrame s = Inr (s\<lparr>heap := (heap s)[r := None], m_rgbFrame := None\<rparr>)"
  using assms by (simp add: av_frame_free_m_rgbFrame_def free_obj_live)

lemma format_free_ok:
  assumes "fmt_ok s"
  shows "\<exists>s'. (if m_avFormat s \<noteq> None then
         andthen (deref (m_avFormat s) (heap s)) (\<lambda>ob.
           case ob of
             AVFormatContext ioContext \<Rightarrow>
               andthen (avformat_close_input s) (\<lambda>s6. avio_context_free ioContext s6)
           | _ \<Rightarrow> Inl UseAfterFree)
       else Inr s) = Inr s' \<and> s' = s\<lparr>heap := heap s', m_avFormat := None\<rparr>"
proof (cases "m_avFormat s")
  case None
  then have "s = s\<lparr>heap := heap s, m_avFormat := None\<rparr>" by (cases s) simp
  with None show ?thesis by simp
next
  case (Some a)
  with assms obtain io where a: "cell (heap s) a = Some (AVFormatContext io)"
    "ptr_to (heap s) io is_io"
    unfolding fmt_ok_def by auto
  let ?s6 = "s\<lparr>heap := (heap s)[a := None], m_avFormat := None\<rparr>"
  have close: "avformat_close_input s = Inr ?s6"
    using Some a(1) by (simp add: avformat_close_input_def free_obj_live)
  have "keeps is_io (heap s) ((heap s)[a := None])"
    using a(1) by (rule keeps_update) (simp add: is_io_def)
  with a(2) have io: "ptr_to (heap ?s6) io is_io" by (simp add: ptr_to_keeps)
  have "avio_context_free io ?s6 = Inr (?s6\<lparr>heap := drop_cell io (heap ?s6)\<rparr>)"
    unfolding avio_context_free_def by (rule release_ptr [OF io])
  with Some a(1) close show ?thesis by (simp add: deref_def)
qed

lemma rgb_ok_frame_free:
  assumes "rgb_ok s" "frame_ok s"
  shows "rgb_ok (s\<lparr>heap := drop_cell (m_frame s) (heap s), m_frame := None\<rparr>)"
proof -
  from assms(1) obtain r d where r: "m_rgbFrame s = Some r" "cell (heap s) r = Some (AVFrame d)"
    "ptr_to (heap s) d (\<lambda>x. x = ImageData)" "m_frame s \<noteq> Some r"
    unfolding rgb_ok_def by blast
  have "keeps (\<lambda>x. x = ImageData) (heap s) (drop_cell (m_frame s) (heap s))"
    using assms(2) unfolding frame_ok_def by (rule keeps_drop) (simp add: is_frame_def)
  with r(3) have "ptr_to (drop_cell (m_frame s) (heap s)) d (\<lambda>x. x = ImageData)"
    by (rule ptr_to_keeps)
  moreover have "cell (drop_cell (m_frame s) (heap s)) r = Some (AVFrame d)"
    using r(2,4) by (cases "m_frame s") (auto simp: drop_cell_def)
  ultimately show ?thesis using r(1) by (simp add: rgb_ok_def)
qed

text \<open>On a session whose pointers are all null or live, \<^verbatim>\<open>h264Exit\<close> completes and
  changes the heap and the four nulled members only.\<close>

lemma h264Exit_ok:
  assumes "session_ok s"
  shows "\<exists>s'. h264Exit s = Inr s' \<and>
     s' = s\<lparr>heap := heap s', m_frame := None, m_rgbFrame := None, m_codecCtx := None,
            m_avFormat := None\<rparr>"
proof -
  from assms have ok: "sws_ok s" "codec_ok s" "frame_ok s" "rgb_ok s" "fmt_ok s"
    by (simp_all add: session_ok_def)
  \<comment> \<open>the scaler\<close>
  define s1 where "s1 = s\<lparr>heap := drop_cell (m_swsContext s) (heap s)\<rparr>"
  have e1: "(if m_swsContext s \<noteq> None then sws_freeContext (m_swsContext s) s else Inr s)
      = Inr s1"
    unfolding s1_def by (rule sws_free_ok [OF ok(1)])
  have k1: "\<And>K. (\<And>ob. K ob \<Longrightarrow> ob \<noteq> SwsContext) \<Longrightarrow> keeps K (heap s) (heap s1)"
    using ok(1) unfolding s1_def sws_ok_def by (auto intro: keeps_drop)
  have ok1: "codec_ok s1" "frame_ok s1" "rgb_ok s1" "fmt_ok s1"
    by (rule codec_ok_keeps [OF ok(2)] frame_ok_keeps [OF ok(3)] rgb_ok_keeps [OF ok(4)]
          fmt_ok_keeps [OF ok(5)];
        (rule k1)?; simp add: s1_def is_frame_def is_format_def is_io_def split: obj.splits)+
  \<comment> \<open>the decoded frame\<close>
  define s2 where "s2 = s1\<lparr>heap := drop_cell (m_frame s1) (heap s1), m_frame := None\<rparr>"
  have e2: "av_frame_free_m_frame s1 = Inr s2"
    unfolding s2_def by (rule frame_free_ok [OF ok1(2)])
  have k2: "\<And>K. (\<And>ob. K ob \<Longrightarrow> \<not> is_frame ob) \<Longrightarrow> keeps K (heap s1) (heap s2)"
    using ok1(2) unfolding s2_def frame_ok_def by (auto intro: keeps_drop)
  have ok2: "codec_ok s2" "fmt_ok s2"
    by (rule codec_ok_keeps [OF ok1(1)] fmt_ok_keeps [OF ok1(4)];
        (rule k2)?; simp add: s2_def is_frame_def is_format_def is_io_def split: obj.splits)+
  have "rgb_ok s2" unfolding s2_def by (rule rgb_ok_frame_free [OF ok1(3) ok1(2)])
  then obtain r d where r: "m_rgbFrame s2 = Some r" "cell (heap s2) r = Some (AVFrame d)"
    "ptr_to (heap s2) d (\<lambda>x. x = ImageData)"
    unfolding rgb_ok_def by blast
  \<comment> \<open>the pixel storage of the output frame\<close>
  define s3 where "s3 = s2\<lparr>heap := (drop_cell d (heap s2))[r := Some (AVFrame None)]\<rparr>"
  have e3: "av_freep_rgb_data0 s2 = Inr s3"
    unfolding s3_def by (rule rgb_data_free_ok [OF r])
  have kd: "keeps is_frame (heap s2) (drop_cell d (heap s2))"
    using r(3) by (rule keeps_drop) (simp add: is_frame_def split: obj.splits)
  with r(2) have rd: "cell (drop_cell d (heap s2)) r = Some (AVFrame d)"
    by (simp add: keeps_def is_frame_def)
  have k3: "\<And>K. (\<And>ob. K ob \<Longrightarrow> \<not> is_frame ob \<and> ob \<noteq> ImageData)
      \<Longrightarrow> keeps K (heap s2) (heap s3)"
  proof -
    fix K :: "obj \<Rightarrow> bool" assume K: "\<And>ob. K ob \<Longrightarrow> \<not> is_frame ob \<and> ob \<noteq> ImageData"
    have "keeps K (heap s2) (drop_cell d (heap s2))"
      using r(3) by (rule keeps_drop) (use K in blast)
    moreover have "keeps K (drop_cell d (heap s2)) ((drop_cell d (heap s2))[r := Some (AVFrame None)])"
      using rd by (rule keeps_update) (use K [of "AVFrame d"] in \<open>auto simp: is_frame_def\<close>)
    ultimately show "keeps K (heap s2) (heap s3)"
      unfolding s3_def by (simp add: keeps_trans)
  qed
  have ok3: "codec_ok s3" "fmt_ok s3"
    by (rule codec_ok_keeps [OF ok2(1)] fmt_ok_keeps [OF ok2(2)];
        (rule k3)?; simp add: s3_def is_frame_def is_format_def is_io_def split: obj.splits)+
  have r3: "m_rgbFrame s3 = Some r" "cell (heap s3) r = Some (AVFrame None)"
    using r(1) rd by (auto simp: s3_def dest: cell_Some_less)
  \<comment> \<open>the output frame\<close>
  define s4 where "s4 = s3\<lparr>heap := (heap s3)[r := None], m_rgbFrame := None\<rparr>"
  have e4: "av_frame_free_m_rgbFrame s3 = Inr s4"
    unfolding s4_def by (rule rgb_free_ok [OF r3])
  have k4: "\<And>K. (\<And>ob. K ob \<Longrightarrow> \<not> is_frame ob) \<Longrightarrow> keeps K (heap s3) (heap s4)"
  proof -
    fix K :: "obj \<Rightarrow> bool" assume K: "\<And>ob. K ob \<Longrightarrow> \<not> is_frame ob"
    have "keeps K (heap s3) ((heap s3)[r := None])"
      using r3(2) by (rule keeps_update) (use K [of "AVFrame None"] in \<open>auto simp: is_frame_def\<close>)
    then show "keeps K (heap s3) (heap s4)" by (simp add: s4_def)
  qed
  have ok4: "codec_ok s4" "fmt_ok s4"
    by (rule codec_ok_keeps [OF ok3(1)] fmt_ok_keeps [OF ok3(2)];
        (rule k4)?; simp add: s4_def is_frame_def is_format_def is_io_def split: obj.splits)+
  \<comment> \<open>the decoder context\<close>
  define s5 where "s5 = s4\<lparr>heap := drop_cell (m_codecCtx s4) (heap s4), m_codecCtx := None\<rparr>"
  have e5: "(if m_codecCtx s4 \<noteq> None then avcodec_free_context s4 else Inr s4) = Inr s5"
  proof (cases "m_codecCtx s4")
    case None
    then have "s4 = s4\<lparr>m_codecCtx := None\<rparr>" by (cases s4) simp
    with None show ?thesis by (simp add: s5_def drop_cell_def)
  next
    case (Some a)
    then show ?thesis unfolding s5_def using codec_free_ok [OF ok4(1)] by simp
  qed
  have k5: "\<And>K. (\<And>ob. K ob \<Longrightarrow> ob \<noteq> AVCodecContext) \<Longrightarrow> keeps K (heap s4) (heap s5)"
    using ok4(1) unfolding s5_def codec_ok_def by (auto intro: keeps_drop)
  have ok5: "fmt_ok s5"
    by (rule fmt_ok_keeps [OF ok4(2)];
        (rule k5)?; simp add: s5_def is_format_def is_io_def split: obj.splits)
  \<comment> \<open>the demux context and its I/O context\<close>
  from format_free_ok [OF ok5] obtain s6 where e6:
    "(if m_avFormat s5 \<noteq> None then
         andthen (deref (m_avFormat s5) (heap s5)) (\<lambda>ob.
           case ob of
             AVFormatContext ioContext \<Rightarrow>
               andthen (avformat_close_input s5) (\<lambda>s6. avio_context_free ioContext s6)
           | _ \<Rightarrow> Inl UseAfterFree)
       else Inr s5) = Inr s6" and s6: "s6 = s5\<lparr>heap := heap s6, m_avFormat := None\<rparr>"
    by blast
  have "h264Exit s = Inr s6"
    unfolding h264Exit_def by (simp only: e1 e2 e3 e4 e5 e6 andthen_Inr)
  moreover have "s6 = s\<lparr>heap := heap s6, m_frame := None, m_rgbFrame := None,
      m_codecCtx := None, m_avFormat := None\<rparr>"
    by (subst s6) (simp add: s5_def s4_def s3_def s2_def s1_def)
  ultimately show ?thesis by blast
qed

section \<open>Probing and selection keep the session well-formed\<close>

lemma h264Init_heap:
  "\<exists>h'. heap (snd (h264Init e s)) = h' \<and> (\<forall>a ob. cell (heap s) a = Some ob \<longrightarrow> cell h' a = Some ob)"
  unfolding h264Init_def new_obj_def alloc_def Let_def say_def
  by (auto simp: cell_beyond dest: cell_Some_less)

lemma h264Init_ok:
  assumes "sws_ok s" "codec_ok s"
  shows "session_ok (snd (h264Init e s))"
proof -
  have k: "\<And>K. keeps K (heap s) (heap (snd (h264Init e s)))"
    using h264Init_heap [of e s] by (auto simp: keeps_def)
  have f: "m_swsContext (snd (h264Init e s)) = m_swsContext s"
     "m_codecCtx (snd (h264Init e s)) = m_codecCtx s"
    unfolding h264Init_def new_obj_def alloc_def Let_def say_def by simp_all
  have 1: "sws_ok (snd (h264Init e s))" by (rule sws_ok_keeps [OF assms(1) k f(1)])
  have 2: "codec_ok (snd (h264Init e s))" by (rule codec_ok_keeps [OF assms(2) k f(2)])
  have 3: "frame_ok (snd (h264Init e s))"
    unfolding h264Init_def new_obj_def alloc_def Let_def say_def frame_ok_def
    by (simp add: ptr_to_Some is_frame_def)
  have 4: "rgb_ok (snd (h264Init e s))"
    unfolding h264Init_def new_obj_def alloc_def Let_def say_def rgb_ok_def
    by (simp add: ptr_to_Some)
  have 5: "fmt_ok (snd (h264Init e s))"
    unfolding h264Init_def new_obj_def alloc_def Let_def say_def fmt_ok_def
    by (simp add: ptr_to_Some is_io_def)
  from 1 2 3 4 5 show ?thesis by (simp add: session_ok_def)
qed

lemma grows_refl: "grows s s"
  by (simp add: grows_def same_cfg_def)

lemma grows_trans: "grows s s' \<Longrightarrow> grows s' s'' \<Longrightarrow> grows s s''"
  by (simp add: grows_def same_cfg_def)

lemma session_ok_grows:
  assumes "session_ok s" "grows s s'" "sws_ok s'" "codec_ok s'"
  shows "session_ok s'"
proof -
  from assms(2) have k: "\<And>K. keeps K (heap s) (heap s')" by (simp add: keeps_def grows_def)
  from assms(2) have f: "m_frame s' = m_frame s" "m_rgbFrame s' = m_rgbFrame s"
    "m_avFormat s' = m_avFormat s" by (simp_all add: grows_def)
  from assms(1) have ok: "frame_ok s" "rgb_ok s" "fmt_ok s" by (simp_all add: session_ok_def)
  have "frame_ok s'" by (rule frame_ok_keeps [OF ok(1) k f(1)])
  moreover have "rgb_ok s'" using f by (intro rgb_ok_keeps [OF ok(2) k k]) simp_all
  moreover have "fmt_ok s'" by (rule fmt_ok_keeps [OF ok(3) k k f(3)])
  ultimately show ?thesis using assms(3,4) by (simp add: session_ok_def)
qed

lemma ptr_to_append_any: "ptr_to h p K \<Longrightarrow> ptr_to (h @ g) p K"
  by (cases p) (auto simp: ptr_to_Some dest: cell_Some_less)

lemma select_step_result:
  "\<exists>s'. select_step i e (idx, s)
       = Inr (if opens e then sint (word_of_nat i :: 32 word) else idx, s')
     \<and> m_avStream s' = Some i \<and> grows s s' \<and> (sws_ok s \<longrightarrow> sws_ok s')
     \<and> (opens e \<or> codec_ok s \<longrightarrow> codec_ok s')"
  unfolding select_step_def Let_def new_obj_def alloc_def
  by (auto simp: codec_free_ok codec_ok_def sws_ok_def ptr_to_Some say_def opens_def drop_cell_def
      grows_def same_cfg_def cell_beyond ptr_to_append_any dest: cell_Some_less)

lemma select_loop_result:
  "\<exists>s'. select_loop i es (idx, s) = Inr (last_opened i es idx, s')
     \<and> grows s s' \<and> (session_ok s \<longrightarrow> session_ok s')
     \<and> (es \<noteq> [] \<longrightarrow> m_avStream s' = Some (i + length es - 1))"
proof (induction es arbitrary: i idx s)
  case Nil
  then show ?case by (simp add: grows_refl)
next
  case (Cons e es)
  let ?idx1 = "if opens e then sint (word_of_nat i :: 32 word) else idx"
  from select_step_result [of i e idx s] obtain s1 where
    1: "select_step i e (idx, s) = Inr (?idx1, s1)"
    and av: "m_avStream s1 = Some i" and g: "grows s s1" and s1: "sws_ok s \<longrightarrow> sws_ok s1"
    and c: "opens e \<or> codec_ok s \<longrightarrow> codec_ok s1"
    by blast
  have ok1: "session_ok s \<longrightarrow> session_ok s1"
  proof
    assume ok: "session_ok s"
    then have "sws_ok s1" "codec_ok s1" using s1 c by (simp_all add: session_ok_def)
    with ok g show "session_ok s1" by (blast intro: session_ok_grows)
  qed
  from Cons.IH [of "Suc i" ?idx1 s1]
  obtain s' where
    2: "select_loop (Suc i) es (?idx1, s1) = Inr (last_opened (Suc i) es ?idx1, s')"
    and g': "grows s1 s'" and s': "session_ok s1 \<longrightarrow> session_ok s'"
    and av': "es \<noteq> [] \<longrightarrow> m_avStream s' = Some (Suc i + length es - 1)"
    by blast
  have "select_loop i (e # es) (idx, s) = Inr (last_opened i (e # es) idx, s')"
    using 1 2 by simp
  moreover have "m_avStream s' = Some (i + length (e # es) - 1)"
  proof (cases es)
    case Nil
    with 2 have "s' = s1" by simp
    with av Nil show ?thesis by simp
  next
    case (Cons a list)
    with av' show ?thesis by simp
  qed
  ultimately show ?case using grows_trans [OF g g'] s' ok1 by blast
qed

lemma last_opened_none: "\<forall>e\<in>set es. \<not> opens e \<Longrightarrow> last_opened i es idx = idx"
  by (induction es arbitrary: i) simp_all

lemma last_opened_last:
  assumes "k < length es" "opens (es ! k)" "\<forall>j. k < j \<and> j < length es \<longrightarrow> \<not> opens (es ! j)"
  shows "last_opened i es idx = sint (word_of_nat (i + k) :: 32 word)"
  using assms
proof (induction es arbitrary: i k idx)
  case Nil
  then show ?case by simp
next
  case (Cons e es)
  show ?case
  proof (cases k)
    case 0
    have "\<forall>x\<in>set es. \<not> opens x"
    proof
      fix x assume "x \<in> set es"
      then obtain j where "j < length es" "es ! j = x" by (auto simp: in_set_conv_nth)
      with Cons.prems(3) [rule_format, of "Suc j"] 0 show "\<not> opens x" by auto
    qed
    with 0 Cons.prems(2) show ?thesis by (simp add: last_opened_none)
  next
    case (Suc k')
    have "last_opened (Suc i) es (if opens e then sint (word_of_nat i :: 32 word) else idx)
        = sint (word_of_nat (Suc i + k') :: 32 word)"
    proof (rule Cons.IH)
      show "k' < length es" using Cons.prems(1) Suc by simp
      show "opens (es ! k')" using Cons.prems(2) Suc by simp
      show "\<forall>j. k' < j \<and> j < length es \<longrightarrow> \<not> opens (es ! j)"
      proof (intro allI impI)
        fix j assume "k' < j \<and> j < length es"
        with Cons.prems(3) [rule_format, of "Suc j"] Suc show "\<not> opens (es ! j)" by simp
      qed
    qed
    with Suc show ?thesis by simp
  qed
qed

lemma sint_index: "k < 2 ^ 31 \<Longrightarrow> sint (word_of_nat k :: 32 word) = int k"
  by (simp add: signed_of_nat signed_take_bit_int_eq_self take_bit_nat_eq_self)

section \<open>The whole decode loop\<close>

lemma session_ok_cong:
  assumes "heap s' = heap s" "m_swsContext s' = m_swsContext s" "m_codecCtx s' = m_codecCtx s"
    "m_frame s' = m_frame s" "m_rgbFrame s' = m_rgbFrame s" "m_avFormat s' = m_avFormat s"
  shows "session_ok s' = session_ok s"
  using assms
  by (simp add: session_ok_def sws_ok_def codec_ok_def frame_ok_def rgb_ok_def fmt_ok_def)

lemma advanced_session_ok:
  assumes "advanced s r s' r'"
  shows "session_ok s' = session_ok s"
proof -
  from assms obtain n lg ow lo where
    "s' = s\<lparr>emitted := emitted s @ replicate n (frame_image s),
         dbg := dbg s @ lg, pkt_owned := ow, pkt_lost := lo\<rparr>"
    unfolding advanced_def by blast
  then show ?thesis by (intro session_ok_cong) simp_all
qed

lemma advanced_emitted:
  assumes "advanced s r s' r'"
  shows "\<exists>n. emitted s' = emitted s @ replicate n (frame_image s) \<and> r' = (r \<or> 0 < n)"
proof -
  from assms obtain n lg ow lo where
    "s' = s\<lparr>emitted := emitted s @ replicate n (frame_image s),
         dbg := dbg s @ lg, pkt_owned := ow, pkt_lost := lo\<rparr>" "r' = (r \<or> 0 < n)"
    unfolding advanced_def by blast
  then have "emitted s' = emitted s @ replicate n (frame_image s) \<and> r' = (r \<or> 0 < n)" by simp
  then show ?thesis ..
qed

lemma h264Init_cfg: "same_cfg s (snd (h264Init e s))"
  unfolding h264Init_def new_obj_def alloc_def Let_def say_def same_cfg_def by simp

lemma frame_image_cfg: "same_cfg s s' \<Longrightarrow> frame_image s' = frame_image s"
  by (simp add: same_cfg_def frame_image_def)

section \<open>The byte source\<close>

lemma wait_loop_exit:
  assumes "0 \<le> len" "\<forall>w\<in>set ws. 0 \<le> bytesAvailable w"
    "wait_loop len ws lg = Some (x, lg')"
  shows "x = Return (- 1) \<or> (\<exists>a. x = Available a \<and> 0 < a)"
  using assms
proof (induction ws arbitrary: len lg)
  case Nil
  then show ?case by (auto split: if_splits)
next
  case (Cons w ws)
  show ?case
  proof (cases "len = 0")
    case False
    with Cons.prems show ?thesis by auto
  next
    case True
    from Cons.prems(2) have b: "0 \<le> bytesAvailable w" "\<forall>w\<in>set ws. 0 \<le> bytesAvailable w"
      by simp_all
    from Cons.prems(3) True
    consider "x = Return (- 1)"
      | lg1 where "wait_loop 0 ws lg1 = Some (x, lg')"
      | lg1 where "wait_loop (bytesAvailable w) ws lg1 = Some (x, lg')"
      by (auto simp: Let_def split: if_splits)
    then show ?thesis
    proof cases
      case 1
      then show ?thesis by simp
    next
      case 2
      from Cons.IH [OF _ b(2) this] show ?thesis by simp
    next
      case 3
      from Cons.IH [OF b(1) b(2) this] show ?thesis .
    qed
  qed
qed

lemma wait_loop_idle: "\<forall>w\<in>set ws. idle_wait w \<Longrightarrow> wait_loop 0 ws lg = None"
  by (induction ws arbitrary: lg) (auto simp: idle_wait_def Let_def split: if_splits)

text \<open>Passes that deliver nothing only add their reconnect lines to the log; and
  \<open>- 1\<close> is the only value the wait loop returns with.\<close>

lemma wait_loop_idle_prefix:
  "\<forall>v\<in>set vs. idle_wait v \<Longrightarrow>
   wait_loop 0 (vs @ ws) lg = wait_loop 0 ws (lg @ concat (map reconnect_log vs))"
proof (induction vs arbitrary: lg)
  case Nil
  show ?case by simp
next
  case (Cons v vs)
  from Cons.prems have v: "idle_wait v" and vs: "\<forall>v\<in>set vs. idle_wait v" by simp_all
  from v have "wait_loop 0 ((v # vs) @ ws) lg = wait_loop 0 (vs @ ws) (lg @ reconnect_log v)"
    by (auto simp: idle_wait_def reconnect_log_def Let_def)
  also have "\<dots> = wait_loop 0 ws ((lg @ reconnect_log v) @ concat (map reconnect_log vs))"
    by (rule Cons.IH [OF vs])
  finally show ?case by simp
qed

lemma wait_loop_Return: "wait_loop len ws lg = Some (Return r, lg') \<Longrightarrow> r = - 1"
proof (induction ws arbitrary: len lg)
  case Nil
  then show ?case by (simp split: if_splits)
next
  case (Cons w ws)
  from Cons.prems consider "r = - 1"
    | l lg1 where "wait_loop l ws lg1 = Some (Return r, lg')"
    by (auto simp: Let_def split: if_splits)
  then show ?case by cases (auto dest: Cons.IH)
qed

section \<open>The loop at a selected session\<close>

lemma after_selection_state:
  "after_selection = idle\<lparr>m_avFormat := Some 1, m_avStream := Some 0, m_codecCtx := Some 6,
     m_swsContext := Some 7, m_frame := Some 3, m_rgbFrame := Some 4,
     heap := [Some Buffer, Some (AVFormatContext (Some 2)), Some (AVIOContext (Some 0)),
       Some (AVFrame None), Some (AVFrame (Some 5)), Some ImageData, Some AVCodecContext,
       Some SwsContext]\<rparr>"
  by code_simp

lemma one_unit_session_run:
  "h264Loop one_unit_session idle = Some (Inr (True,
     idle\<lparr>m_avStream := Some 0, m_swsContext := Some 7,
       heap := [Some Buffer, None, None, None, None, None, None, None],
       emitted := [\<lparr>img_width = 480, img_height = 800, img_format = Format_RGB888,
                    img_pixels = Picture\<rparr>]\<rparr>))"
  by code_simp

lemma read_at_after_selection:
  "av_read_frame r after_selection = Inr (after_selection\<lparr>pkt_owned := (0 \<le> r)\<rparr>)"
  by (simp add: after_selection_state av_read_frame_def through_def deref_def cell_def
      andthen_def idle_def)

lemma starved_read:
  "av_read_frame (read_ret starved_it) after_selection = Inr after_selection"
  by code_simp

lemma after_selection_send: "avcodec_send_packet after_selection = Inr ()"
  by code_simp

lemma starved_receive:
  "receive_frames (recv_rets starved_it) (after_selection, False)
     = Some (Inr (after_selection, False))"
  by code_simp

section \<open>Interruption\<close>

text \<open>A set flag at the head of a pass ends either loop in the state it is in.\<close>

lemma h264_while_interrupted:
  "interrupted it \<Longrightarrow> h264_while idx (it # its) sr = Some (Inr sr)"
  by simp

lemma nativeLoop_interrupted: "n_interrupted it \<Longrightarrow> nativeLoop (it # its) s = Some s"
  by simp

section \<open>The snapshot loop\<close>

lemma native_image_upd [simp]:
  "native_image it (s\<lparr>emitted := e\<rparr>) = native_image it s"
  "native_image it (s\<lparr>slept := n\<rparr>) = native_image it s"
  by (simp_all add: native_image_def)

lemma nativeLoop_asleep:
  assumes "\<forall>it\<in>set sleeping. \<not> n_interrupted it \<and> \<not> isScreenAwake it"
  shows "nativeLoop (sleeping @ rest) s
     = nativeLoop rest (s\<lparr>emitted := emitted s @ replicate (length sleeping)
           (scaledToWidth (fill_black (QImage_new (m_imageWidth s) (m_imageHeight s)
              Format_RGB888)) (m_imageWidth s)),
         slept := slept s + length sleeping * m_nativeInterval s\<rparr>)"
  using assms
proof (induction sleeping arbitrary: s)
  case Nil
  show ?case by simp
next
  case (Cons it sleeping)
  let ?b = "scaledToWidth (fill_black (QImage_new (m_imageWidth s) (m_imageHeight s)
              Format_RGB888)) (m_imageWidth s)"
  let ?s1 = "(emit_imageReady ?b s)\<lparr>slept := slept s + m_nativeInterval s\<rparr>"
  from Cons.prems have it: "\<not> n_interrupted it" "\<not> isScreenAwake it"
    and rest: "\<forall>it\<in>set sleeping. \<not> n_interrupted it \<and> \<not> isScreenAwake it" by simp_all
  have "nativeLoop ((it # sleeping) @ rest) s = nativeLoop (sleeping @ rest) ?s1"
    using it by (simp add: native_image_def)
  also have "\<dots> = nativeLoop rest (?s1\<lparr>emitted := emitted ?s1 @ replicate (length sleeping)
           (scaledToWidth (fill_black (QImage_new (m_imageWidth ?s1) (m_imageHeight ?s1)
              Format_RGB888)) (m_imageWidth ?s1)),
         slept := slept ?s1 + length sleeping * m_nativeInterval ?s1\<rparr>)"
    by (rule Cons.IH [OF rest])
  also have "?s1\<lparr>emitted := emitted ?s1 @ replicate (length sleeping)
           (scaledToWidth (fill_black (QImage_new (m_imageWidth ?s1) (m_imageHeight ?s1)
              Format_RGB888)) (m_imageWidth ?s1)),
         slept := slept ?s1 + length sleeping * m_nativeInterval ?s1\<rparr>
    = s\<lparr>emitted := emitted s @ replicate (length (it # sleeping)) ?b,
         slept := slept s + length (it # sleeping) * m_nativeInterval s\<rparr>"
    by (simp add: emit_imageReady_def replicate_app_Cons_same)
  finally show ?case .
qed

lemma black_placeholder:
  assumes "0 < w" "0 < h"
  shows "scaledToWidth (fill_black (QImage_new w h Format_RGB888)) w
     = \<lparr>img_width = w, img_height = h, img_format = Format_RGB888, img_pixels = Black\<rparr>"
  using assms by (simp add: scaledToWidth_def fill_black_def QImage_new_def isNull_def null_image_def)

lemma frame_image_positive:
  "0 < m_imageWidth s \<Longrightarrow> 0 < m_imageHeight s \<Longrightarrow>
   frame_image s = \<lparr>img_width = m_imageWidth s, img_height = m_imageHeight s,
     img_format = Format_RGB888, img_pixels = Picture\<rparr>"
  by (simp add: frame_image_def QImage_new_def isNull_def null_image_def)

lemma scaledToWidth_width:
  "isNull (scaledToWidth img w) \<or> img_width (scaledToWidth img w) = w"
  by (simp add: scaledToWidth_def Let_def isNull_def)

lemma nativeLoop_emitted:
  "nativeLoop its s = Some s' \<Longrightarrow>
   \<exists>imgs. emitted s' = emitted s @ map (\<lambda>img. scaledToWidth img (m_imageWidth s)) imgs
     \<and> (\<forall>img\<in>set imgs. \<exists>it\<in>set its. native_image it s = Some img)"
proof (induction its arbitrary: s)
  case Nil
  then show ?case by simp
next
  case (Cons it its)
  show ?case
  proof (cases "n_interrupted it \<or> native_image it s = None")
    case True
    with Cons.prems have "s' = s" by (auto split: if_splits)
    then have "emitted s' = emitted s @ map (\<lambda>img. scaledToWidth img (m_imageWidth s)) []
      \<and> (\<forall>img\<in>set []. \<exists>it\<in>set (it # its). native_image it s = Some img)" by simp
    then show ?thesis by blast
  next
    case False
    then obtain img where img: "native_image it s = Some img" and ni: "\<not> n_interrupted it"
      by auto
    let ?s1 = "(emit_imageReady (scaledToWidth img (m_imageWidth s)) s)
                 \<lparr>slept := slept s + m_nativeInterval s\<rparr>"
    from Cons.prems img ni have "nativeLoop its ?s1 = Some s'" by simp
    from Cons.IH [OF this] obtain imgs where
      e: "emitted s' = emitted ?s1 @ map (\<lambda>img. scaledToWidth img (m_imageWidth ?s1)) imgs"
      and a: "\<forall>img\<in>set imgs. \<exists>it\<in>set its. native_image it ?s1 = Some img" by blast
    have n: "native_image j ?s1 = native_image j s" for j
      by (simp add: native_image_def emit_imageReady_def)
    from e have "emitted s' = emitted s
         @ map (\<lambda>img. scaledToWidth img (m_imageWidth s)) (img # imgs)"
      by (simp add: emit_imageReady_def)
    moreover from a have "\<forall>x\<in>set imgs. \<exists>it\<in>set its. native_image it s = Some x"
      unfolding n .
    with img have "\<forall>x\<in>set (img # imgs). \<exists>it\<in>set (it # its). native_image it s = Some x"
      by auto
    ultimately show ?thesis by blast
  qed
qed

lemma asleep_then_stop:
  "nativeLoop [snap_asleep, snap_stop] idle
     = Some (idle\<lparr>emitted := [\<lparr>img_width = 480, img_height = 800,
           img_format = Format_RGB888, img_pixels = Black\<rparr>], slept := 100\<rparr>)"
  by (simp add: idle_def snap_asleep_def snap_stop_def native_image_def
      fill_black_def QImage_new_def scaledToWidth_def isNull_def null_image_def
      emit_imageReady_def)

section \<open>Teardown emits nothing\<close>

lemma andthenE:
  assumes "andthen r f = Inr y"
  obtains x where "r = Inr x" "f x = Inr y"
  using assms by (cases r) (simp_all add: andthen_def)

lemma free_obj_emitted: "free_obj a s = Inr s' \<Longrightarrow> emitted s' = emitted s"
  by (auto simp: free_obj_def split: sum.splits)

lemma sws_freeContext_emitted: "sws_freeContext p s = Inr s' \<Longrightarrow> emitted s' = emitted s"
  by (auto simp: sws_freeContext_def split: option.splits dest: free_obj_emitted)

lemma av_frame_free_m_frame_emitted:
  "av_frame_free_m_frame s = Inr s' \<Longrightarrow> emitted s' = emitted s"
  by (auto simp: av_frame_free_m_frame_def split: option.splits elim!: andthenE
      dest: free_obj_emitted)

lemma av_frame_free_m_rgbFrame_emitted:
  "av_frame_free_m_rgbFrame s = Inr s' \<Longrightarrow> emitted s' = emitted s"
  by (auto simp: av_frame_free_m_rgbFrame_def split: option.splits elim!: andthenE
      dest: free_obj_emitted)

lemma av_freep_rgb_data0_emitted:
  "av_freep_rgb_data0 s = Inr s' \<Longrightarrow> emitted s' = emitted s"
  by (auto simp: av_freep_rgb_data0_def split: option.splits obj.splits elim!: andthenE
      dest!: free_obj_emitted)

lemma avcodec_free_context_emitted:
  "avcodec_free_context s = Inr s' \<Longrightarrow> emitted s' = emitted s"
  by (auto simp: avcodec_free_context_def split: option.splits elim!: andthenE
      dest: free_obj_emitted)

lemma avformat_close_input_emitted:
  "avformat_close_input s = Inr s' \<Longrightarrow> emitted s' = emitted s"
  by (auto simp: avformat_close_input_def split: option.splits elim!: andthenE
      dest: free_obj_emitted)

lemma avio_context_free_emitted:
  "avio_context_free p s = Inr s' \<Longrightarrow> emitted s' = emitted s"
  by (auto simp: avio_context_free_def split: option.splits dest: free_obj_emitted)

lemma h264Exit_emitted:
  assumes "h264Exit s = Inr s'"
  shows "emitted s' = emitted s"
proof -
  from assms obtain s1 s2 s3 s4 s5 where
    1: "(if m_swsContext s \<noteq> None then sws_freeContext (m_swsContext s) s else Inr s) = Inr s1"
    and 2: "av_frame_free_m_frame s1 = Inr s2"
    and 3: "av_freep_rgb_data0 s2 = Inr s3"
    and 4: "av_frame_free_m_rgbFrame s3 = Inr s4"
    and 5: "(if m_codecCtx s4 \<noteq> None then avcodec_free_context s4 else Inr s4) = Inr s5"
    and 6: "(if m_avFormat s5 \<noteq> None then
         andthen (deref (m_avFormat s5) (heap s5)) (\<lambda>ob.
           case ob of
             AVFormatContext ioContext \<Rightarrow>
               andthen (avformat_close_input s5) (\<lambda>s6. avio_context_free ioContext s6)
           | _ \<Rightarrow> Inl UseAfterFree)
       else Inr s5) = Inr s'"
    unfolding h264Exit_def by (elim andthenE) blast
  from 1 have "emitted s1 = emitted s"
    by (auto split: if_splits dest: sws_freeContext_emitted)
  moreover from 2 have "emitted s2 = emitted s1" by (rule av_frame_free_m_frame_emitted)
  moreover from 3 have "emitted s3 = emitted s2" by (rule av_freep_rgb_data0_emitted)
  moreover from 4 have "emitted s4 = emitted s3" by (rule av_frame_free_m_rgbFrame_emitted)
  moreover from 5 have "emitted s5 = emitted s4"
    by (auto split: if_splits dest: avcodec_free_context_emitted)
  moreover from 6 have "emitted s' = emitted s5"
    by (auto split: if_splits obj.splits elim!: andthenE
        dest!: avformat_close_input_emitted avio_context_free_emitted)
  ultimately show ?thesis by simp
qed

section \<open>The frames of a session\<close>

text \<open>A session that returns has appended copies of the frame image to the emitted list,
  and its flag says whether there was one; this holds from every state of the object.\<close>

lemma h264Loop_frames:
  assumes "h264Loop env s = Some (Inr (res, s'))"
  shows "\<exists>n. emitted s' = emitted s @ replicate n (frame_image s) \<and> res = (0 < n)"
proof -
  obtain ok s1 where i: "h264Init (e_init env) s = (ok, s1)" by (cases "h264Init (e_init env) s")
  from h264Init_cfg [of s "e_init env"] i have c1: "same_cfg s s1" by simp
  have none: "\<exists>n. emitted s' = emitted s @ replicate n (frame_image s) \<and> res = (0 < n)"
    if "emitted s' = emitted s" "res = False"
  proof -
    from that have "emitted s' = emitted s @ replicate 0 (frame_image s) \<and> res = (0 < (0::nat))"
      by simp
    then show ?thesis ..
  qed
  show ?thesis
  proof (cases ok)
    case False
    with i assms obtain t where "h264Exit s1 = Inr t" "res = False" "s' = t"
      by (auto simp: h264Loop_def elim!: andthenE)
    with c1 h264Exit_emitted [of s1 t] show ?thesis by (intro none) (simp_all add: same_cfg_def)
  next
    case True
    from select_loop_result [of 0 "e_streams env" "- 1" s1] obtain s2 idx where
      sel: "h264VideoStreamIndex (e_streams env) s1 = Inr (idx, s2)"
      and g: "grows s1 s2"
      unfolding h264VideoStreamIndex_def by blast
    from g c1 have c2: "same_cfg s s2" by (simp add: grows_def same_cfg_def)
    show ?thesis
    proof (cases "idx = - 1")
      case idx: True
      with True i sel assms obtain t where "h264Exit s2 = Inr t" "res = False" "s' = t"
        by (auto simp: h264Loop_def elim!: andthenE)
      with c2 h264Exit_emitted [of s2 t] show ?thesis
        by (intro none) (simp_all add: same_cfg_def)
    next
      case idx: False
      with True i sel assms obtain s3 where
        w: "h264_while idx (e_iterations env) (s2\<lparr>pkt_owned := False\<rparr>, False)
              = Some (Inr (s3, res))"
        and e: "h264Exit s3 = Inr s'"
        by (auto simp: h264Loop_def split: option.splits sum.splits elim!: andthenE)
      from advanced_emitted [OF h264_while_advanced [OF w]] obtain n where
        "emitted s3 = emitted (s2\<lparr>pkt_owned := False\<rparr>)
           @ replicate n (frame_image (s2\<lparr>pkt_owned := False\<rparr>))"
        "res = (False \<or> 0 < n)" by blast
      with c2 frame_image_cfg [OF c2] h264Exit_emitted [OF e]
      have "emitted s' = emitted s @ replicate n (frame_image s) \<and> res = (0 < n)"
        by (simp add: same_cfg_def)
      then show ?thesis ..
    qed
  qed
qed

lemma h264Loop_result_flag:
  assumes "h264Loop env s = Some (Inr (res, s'))"
  shows "res \<longleftrightarrow> length (emitted s) < length (emitted s')"
proof -
  from h264Loop_frames [OF assms] obtain n where
    "emitted s' = emitted s @ replicate n (frame_image s)" "res = (0 < n)" by blast
  then show ?thesis by simp
qed

section \<open>Evaluated sessions\<close>

lemma returned_flag:
  "map_option (map_sum id fst) r = Some (Inr b) \<Longrightarrow> \<exists>s'. r = Some (Inr (b, s'))"
  by (cases r) (auto simp: map_sum_def split: sum.splits)

lemma probe_failure_session_run:
  "map_option (map_sum id fst) (h264Loop probe_failure_session idle) = Some (Inr False)"
  by code_simp

lemma read_failure_session_run:
  "map_option (map_sum id fst) (h264Loop read_failure_session idle) = Some (Inr True)"
  by code_simp

lemma audio_only_session_run:
  "map_option (map_sum id fst) (h264Loop audio_only_session idle) = Some (Inr False)"
  by code_simp

lemma stopped_session_run:
  "h264Loop stopped_session idle = Some (Inr (False,
     idle\<lparr>m_avStream := Some 0, m_swsContext := Some 7,
       heap := [Some Buffer, None, None, None, None, None, None, None]\<rparr>))"
  by code_simp

lemma second_session_run:
  "h264Loop one_unit_session after_first_session = Some (Inr (True,
     idle\<lparr>m_avStream := Some 0, m_swsContext := Some 15,
       heap := [Some Buffer, None, None, None, None, None, None, None,
                Some Buffer, None, None, None, None, None, None, None],
       emitted := [\<lparr>img_width = 480, img_height = 800, img_format = Format_RGB888,
                    img_pixels = Picture\<rparr>,
                   \<lparr>img_width = 480, img_height = 800, img_format = Format_RGB888,
                    img_pixels = Picture\<rparr>]\<rparr>))"
  by code_simp

text \<open>With no pixel storage the first decoded frame is the crash: the scanline copy
  reads through the null \<^verbatim>\<open>data[0]\<close>.\<close>

lemma unallocated_image_session_crashes:
  "h264Loop unallocated_image_session idle = Some (Inl NullDeref)"
  by code_simp

lemma after_first_session_size:
  "m_imageWidth after_first_session = 480" "m_imageHeight after_first_session = 800"
  "emitted after_first_session = [\<lparr>img_width = 480, img_height = 800,
     img_format = Format_RGB888, img_pixels = Picture\<rparr>]"
  by code_simp+



section \<open>The claims\<close>

text \<open>
  \<^bold>\<open>C1.\<close> \<^verbatim>\<open>h264Loop\<close> returns true if and only if it emitted at least one frame: whenever
  the loop returns, from any state of the object and on whatever path (probe failure, no
  stream selected, a fatal read or send error, the drain after end of input,
  interruption), the flag returned says whether the list of emitted frames grew.
\<close>

theorem C1_success_iff_frame_emitted:
  "h264Loop env s = Some (Inr (res, s')) \<longrightarrow>
     (res \<longleftrightarrow> length (emitted s) < length (emitted s'))"
proof
  assume "h264Loop env s = Some (Inr (res, s'))"
  then show "res \<longleftrightarrow> length (emitted s) < length (emitted s')"
    by (rule h264Loop_result_flag)
qed

text \<open>C1 at five sessions of a new object: one unit then end of input (true, one
  frame), a probe that fails (false), no video stream (false), a fatal read after one
  decoded unit (true), and an interruption before the first read (false).\<close>

theorem C1_witness:
  "(\<exists>s'. h264Loop one_unit_session idle = Some (Inr (True, s'))
         \<and> length (emitted idle) < length (emitted s'))
   \<and> (\<exists>s'. h264Loop probe_failure_session idle = Some (Inr (False, s'))
         \<and> \<not> length (emitted idle) < length (emitted s'))
   \<and> (\<exists>s'. h264Loop audio_only_session idle = Some (Inr (False, s'))
         \<and> \<not> length (emitted idle) < length (emitted s'))
   \<and> (\<exists>s'. h264Loop read_failure_session idle = Some (Inr (True, s'))
         \<and> length (emitted idle) < length (emitted s'))
   \<and> (\<exists>s'. h264Loop stopped_session idle = Some (Inr (False, s'))
         \<and> \<not> length (emitted idle) < length (emitted s'))"
proof -
  note flag = C1_success_iff_frame_emitted [THEN mp]
  from one_unit_session_run obtain s1 where
    1: "h264Loop one_unit_session idle = Some (Inr (True, s1))" by blast
  from returned_flag [OF probe_failure_session_run] obtain s2 where
    2: "h264Loop probe_failure_session idle = Some (Inr (False, s2))" by blast
  from returned_flag [OF audio_only_session_run] obtain s3 where
    3: "h264Loop audio_only_session idle = Some (Inr (False, s3))" by blast
  from returned_flag [OF read_failure_session_run] obtain s4 where
    4: "h264Loop read_failure_session idle = Some (Inr (True, s4))" by blast
  from stopped_session_run obtain s5 where
    5: "h264Loop stopped_session idle = Some (Inr (False, s5))" by blast
  from flag [OF 1] flag [OF 2] flag [OF 3] flag [OF 4] flag [OF 5] 1 2 3 4 5
  show ?thesis by blast
qed

text \<open>
  \<^bold>\<open>C2.\<close> Teardown is not idempotent, and it is not safe in a session that created no
  scaler when an earlier session of the object did. After a probe, the first \<^verbatim>\<open>h264Exit\<close>
  completes and the second goes through the nulled \<^verbatim>\<open>m_rgbFrame\<close>, the one member the
  function uses without the guard its neighbours have. After a selection that
  built a scaler, the first completes and the second frees the scaler again:
  \<^verbatim>\<open>sws_freeContext\<close> takes the pointer by value and \<^verbatim>\<open>m_swsContext\<close> is never reset, where
  every other release nulls its member. The stale pointer outlives the session: when the
  same object probes again, a single teardown, right after \<^verbatim>\<open>h264Init\<close> or from the
  probe-failure path of \<^verbatim>\<open>h264Loop\<close>, frees the scaler of the first session a second time.
\<close>

theorem C2_second_teardown_faults:
  "h264Exit after_probe
     = Inr (idle\<lparr>heap := [Some Buffer, None, None, None, None, None]\<rparr>)
   \<and> andthen (h264Exit after_probe) h264Exit = Inl NullDeref
   \<and> h264Exit after_selection
     = Inr (idle\<lparr>m_avStream := Some 0, m_swsContext := Some 7,
         heap := [Some Buffer, None, None, None, None, None, None, None]\<rparr>)
   \<and> andthen (h264Exit after_selection) h264Exit = Inl DoubleFree
   \<and> m_swsContext after_first_session = Some 7
   \<and> cell (heap after_first_session) 7 = None
   \<and> h264Exit (snd (h264Init probe_ok after_first_session)) = Inl DoubleFree
   \<and> h264Loop probe_failure_session after_first_session = Some (Inl DoubleFree)"
  by code_simp

text \<open>
  \<^bold>\<open>C3.\<close> The fill has no end-of-input result. On a remote-closed connection it returns
  \<open>- 1\<close>, the value it returns on any other socket error, and \<open>- 1\<close> is not \<^verbatim>\<open>AVERROR_EOF\<close>;
  a read that reports \<open>- 1\<close> takes the fatal branch of the loop, which logs
  \<^verbatim>\<open>av_read_frame() failed\<close> and leaves without a drain pass.
\<close>

theorem C3_counterexample:
  "read_packet 0 [remote_closed_step] 8192 True
     = Some (- 1, [(''FRAMEBUFFER host disconnected '', [])])
   \<and> read_packet 0 [other_error_step] 8192 True = Some (- 1, [(''FRAMEBUFFER read failed:'', [])])
   \<and> - 1 \<noteq> AVERROR_EOF
   \<and> h264_body 0 read_error_it (after_selection, False)
     = Some (Inr (Leave, say ''FRAMEBUFFER av_read_frame() failed:'' [- 1] after_selection,
                  False))"
  by code_simp

text \<open>
  \<^bold>\<open>C3, as amended.\<close> At whatever pass of the wait loop the remote-closed error is
  reported, after any number of passes that timed out, woke to nothing or reconnected,
  the fill logs \<^verbatim>\<open>host disconnected\<close> and returns \<open>- 1\<close>. It returns the same value, at the
  same place, for any other socket error (logged as \<^verbatim>\<open>read failed\<close>), for a reconnect that
  fails, for an interruption, and for a read that fails once bytes are there; \<open>- 1\<close> is the
  only value the wait loop returns with. It is neither \<^verbatim>\<open>AVERROR_EOF\<close> nor
  \<^verbatim>\<open>AVERROR(EAGAIN)\<close>, and a pass of the decode loop whose read reports it logs the read
  failure and leaves the loop at once, the decoder not drained.
\<close>

theorem C3_remote_closed_is_fatal_read:
  assumes "\<forall>v\<in>set vs. idle_wait v"
    and "isConnected w \<or> fst (h264Connect w)" "\<not> w_interrupted w" "\<not> waitForReadyRead w"
    and "socket_error w = RemoteHostClosedError"
  shows "read_packet 0 (vs @ w # ws) buf_size read_ok
       = Some (- 1, concat (map reconnect_log (vs @ [w]))
                    @ [(''FRAMEBUFFER host disconnected '', [])])
     \<and> ((isConnected x \<or> fst (h264Connect x)) \<and> \<not> w_interrupted x \<and> \<not> waitForReadyRead x
          \<and> socket_error x = OtherSocketError
        \<longrightarrow> read_packet 0 (vs @ x # ws) buf_size read_ok
            = Some (- 1, concat (map reconnect_log (vs @ [x]))
                         @ [(''FRAMEBUFFER read failed:'', [])]))
     \<and> (\<not> isConnected x \<and> \<not> fst (h264Connect x)
        \<longrightarrow> read_packet 0 (vs @ x # ws) buf_size read_ok
            = Some (- 1, concat (map reconnect_log (vs @ [x]))))
     \<and> ((isConnected x \<or> fst (h264Connect x)) \<and> w_interrupted x
        \<longrightarrow> read_packet 0 (vs @ x # ws) buf_size read_ok
            = Some (- 1, concat (map reconnect_log (vs @ [x]))))
     \<and> ((isConnected x \<or> fst (h264Connect x)) \<and> \<not> w_interrupted x \<and> waitForReadyRead x
          \<and> bytesAvailable x \<noteq> 0
        \<longrightarrow> read_packet 0 (vs @ x # ws) buf_size False
            = Some (- 1, concat (map reconnect_log (vs @ [x]))))
     \<and> (avail \<noteq> 0 \<longrightarrow> read_packet avail ws buf_size False = Some (- 1, []))
     \<and> (\<forall>r lg'. wait_loop avail ws lg = Some (Return r, lg') \<longrightarrow> r = - 1)
     \<and> - 1 \<noteq> AVERROR_EOF \<and> - 1 \<noteq> AVERROR_EAGAIN
     \<and> (\<not> interrupted it \<and> read_ret it = - 1 \<and> av_read_frame (- 1) s = Inr s1
        \<longrightarrow> h264_body idx it (s, res)
            = Some (Inr (Leave, say ''FRAMEBUFFER av_read_frame() failed:'' [- 1] s1, res))
          \<and> h264_while idx (it # its) (s, res)
            = Some (Inr (say ''FRAMEBUFFER av_read_frame() failed:'' [- 1] s1, res)))"
proof -
  note pre = wait_loop_idle_prefix [OF assms(1)]
  have 1: "read_packet 0 (vs @ w # ws) buf_size read_ok
       = Some (- 1, concat (map reconnect_log (vs @ [w]))
                    @ [(''FRAMEBUFFER host disconnected '', [])])"
    using assms(2-5) unfolding read_packet_def pre
    by (auto simp: reconnect_log_def Let_def)
  have 2: "read_packet 0 (vs @ x # ws) buf_size read_ok
            = Some (- 1, concat (map reconnect_log (vs @ [x]))
                         @ [(''FRAMEBUFFER read failed:'', [])])"
    if "(isConnected x \<or> fst (h264Connect x)) \<and> \<not> w_interrupted x \<and> \<not> waitForReadyRead x
          \<and> socket_error x = OtherSocketError"
    using that unfolding read_packet_def pre
    by (auto simp: reconnect_log_def Let_def)
  have 3: "read_packet 0 (vs @ x # ws) buf_size read_ok
            = Some (- 1, concat (map reconnect_log (vs @ [x])))"
    if "\<not> isConnected x \<and> \<not> fst (h264Connect x)"
    using that unfolding read_packet_def pre
    by (auto simp: reconnect_log_def Let_def)
  have 4: "read_packet 0 (vs @ x # ws) buf_size read_ok
            = Some (- 1, concat (map reconnect_log (vs @ [x])))"
    if "(isConnected x \<or> fst (h264Connect x)) \<and> w_interrupted x"
    using that unfolding read_packet_def pre
    by (auto simp: reconnect_log_def Let_def)
  have 5: "read_packet 0 (vs @ x # ws) buf_size False
            = Some (- 1, concat (map reconnect_log (vs @ [x])))"
    if "(isConnected x \<or> fst (h264Connect x)) \<and> \<not> w_interrupted x \<and> waitForReadyRead x
          \<and> bytesAvailable x \<noteq> 0"
  proof -
    from that have "wait_loop 0 (x # ws) (concat (map reconnect_log vs))
        = Some (Available (bytesAvailable x), concat (map reconnect_log (vs @ [x])))"
      by (cases ws) (auto simp: reconnect_log_def Let_def)
    then show ?thesis unfolding read_packet_def pre by simp
  qed
  have 6: "read_packet avail ws buf_size False = Some (- 1, [])" if "avail \<noteq> 0"
    using that unfolding read_packet_def by (cases ws) simp_all
  have 7: "\<forall>r lg'. wait_loop avail ws lg = Some (Return r, lg') \<longrightarrow> r = - 1"
    by (blast dest: wait_loop_Return)
  have 8: "- 1 \<noteq> AVERROR_EOF \<and> - 1 \<noteq> AVERROR_EAGAIN"
    by (simp add: AVERROR_EOF_def AVERROR_EAGAIN_def)
  have 9: "h264_body idx it (s, res)
            = Some (Inr (Leave, say ''FRAMEBUFFER av_read_frame() failed:'' [- 1] s1, res))
          \<and> h264_while idx (it # its) (s, res)
            = Some (Inr (say ''FRAMEBUFFER av_read_frame() failed:'' [- 1] s1, res))"
    if "\<not> interrupted it \<and> read_ret it = - 1 \<and> av_read_frame (- 1) s = Inr s1"
    using that by (simp add: h264_body_def AVERROR_EOF_def AVERROR_EAGAIN_def)
  show ?thesis
    by (intro conjI impI 1 7 8 [THEN conjunct1] 8 [THEN conjunct2])
      (blast intro: 2 3 4 5 6 9 [THEN conjunct1] 9 [THEN conjunct2])+
qed

text \<open>C3 as amended, at a connection that times out, is reconnected, and then is
  closed by the remote side, fails otherwise, is refused, is interrupted or fails to
  read; and at a loop pass, in a selected session, whose read reports \<open>- 1\<close>.\<close>

theorem C3_witness:
  "idle_wait timeout_step \<and> idle_wait reconnect_step
   \<and> isConnected remote_closed_step \<and> \<not> w_interrupted remote_closed_step
   \<and> \<not> waitForReadyRead remote_closed_step
   \<and> socket_error remote_closed_step = RemoteHostClosedError
   \<and> read_packet 0 ([timeout_step, reconnect_step] @ remote_closed_step # [data_step]) 8192 True
       = Some (- 1, [(''FRAMEBUFFER connected'', []), (''FRAMEBUFFER host disconnected '', [])])
   \<and> read_packet 0 ([timeout_step, reconnect_step] @ other_error_step # [data_step]) 8192 True
       = Some (- 1, [(''FRAMEBUFFER connected'', []), (''FRAMEBUFFER read failed:'', [])])
   \<and> read_packet 0 ([timeout_step, reconnect_step] @ refused_step # [data_step]) 8192 True
       = Some (- 1, [(''FRAMEBUFFER connected'', [])])
   \<and> read_packet 0 ([timeout_step, reconnect_step] @ interrupted_step # [data_step]) 8192 True
       = Some (- 1, [(''FRAMEBUFFER connected'', [])])
   \<and> read_packet 0 ([timeout_step, reconnect_step] @ data_step # [data_step]) 8192 False
       = Some (- 1, [(''FRAMEBUFFER connected'', [])])
   \<and> \<not> interrupted read_error_it \<and> read_ret read_error_it = - 1
   \<and> av_read_frame (- 1) after_selection = Inr (after_selection\<lparr>pkt_owned := False\<rparr>)
   \<and> h264_while 0 (read_error_it # [unit_it, eof_it]) (after_selection, False)
       = Some (Inr (say ''FRAMEBUFFER av_read_frame() failed:'' [- 1]
                      (after_selection\<lparr>pkt_owned := False\<rparr>), False))"
proof -
  have i: "idle_wait timeout_step" "idle_wait reconnect_step"
    by (simp_all add: idle_wait_def timeout_step_def reconnect_step_def h264Connect_def)
  then have vs: "\<forall>v\<in>set [timeout_step, reconnect_step]. idle_wait v" by simp
  have w: "isConnected remote_closed_step" "\<not> w_interrupted remote_closed_step"
    "\<not> waitForReadyRead remote_closed_step"
    "socket_error remote_closed_step = RemoteHostClosedError"
    by (simp_all add: remote_closed_step_def)
  have lg: "concat (map reconnect_log ([timeout_step, reconnect_step] @ [x]))
      = (''FRAMEBUFFER connected'', []) # reconnect_log x" for x
    by (simp add: reconnect_log_def timeout_step_def reconnect_step_def h264Connect_def)
  have r: "reconnect_log remote_closed_step = []" "reconnect_log other_error_step = []"
    "reconnect_log refused_step = []" "reconnect_log interrupted_step = []"
    "reconnect_log data_step = []"
    by (simp_all add: reconnect_log_def remote_closed_step_def other_error_step_def
        refused_step_def interrupted_step_def data_step_def h264Connect_def)
  have it: "\<not> interrupted read_error_it" "read_ret read_error_it = - 1"
    by (simp_all add: read_error_it_def)
  have rd: "av_read_frame (- 1) after_selection = Inr (after_selection\<lparr>pkt_owned := False\<rparr>)"
    using read_at_after_selection [of "- 1"] by simp
  note t = C3_remote_closed_is_fatal_read [OF vs disjI1 [OF w(1)] w(2) w(3) w(4),
      where ws = "[data_step]" and buf_size = 8192 and read_ok = True]
  have 1: "read_packet 0 ([timeout_step, reconnect_step] @ remote_closed_step # [data_step]) 8192
      True = Some (- 1, [(''FRAMEBUFFER connected'', []), (''FRAMEBUFFER host disconnected '', [])])"
    using t [THEN conjunct1] unfolding lg r by simp
  have 2: "read_packet 0 ([timeout_step, reconnect_step] @ other_error_step # [data_step]) 8192
      True = Some (- 1, [(''FRAMEBUFFER connected'', []), (''FRAMEBUFFER read failed:'', [])])"
    using t [where x = other_error_step, THEN conjunct2, THEN conjunct1] unfolding lg r
    by (simp add: other_error_step_def)
  have 3: "read_packet 0 ([timeout_step, reconnect_step] @ refused_step # [data_step]) 8192
      True = Some (- 1, [(''FRAMEBUFFER connected'', [])])"
    using t [where x = refused_step, THEN conjunct2, THEN conjunct2, THEN conjunct1]
    unfolding lg r by (simp add: refused_step_def h264Connect_def)
  have 4: "read_packet 0 ([timeout_step, reconnect_step] @ interrupted_step # [data_step]) 8192
      True = Some (- 1, [(''FRAMEBUFFER connected'', [])])"
    using t [where x = interrupted_step, THEN conjunct2, THEN conjunct2, THEN conjunct2,
        THEN conjunct1]
    unfolding lg r by (simp add: interrupted_step_def)
  have 5: "read_packet 0 ([timeout_step, reconnect_step] @ data_step # [data_step]) 8192
      False = Some (- 1, [(''FRAMEBUFFER connected'', [])])"
    using t [where x = data_step, THEN conjunct2, THEN conjunct2, THEN conjunct2,
        THEN conjunct2, THEN conjunct1]
    unfolding lg r by (simp add: data_step_def)
  have 6: "h264_while 0 (read_error_it # [unit_it, eof_it]) (after_selection, False)
       = Some (Inr (say ''FRAMEBUFFER av_read_frame() failed:'' [- 1]
                      (after_selection\<lparr>pkt_owned := False\<rparr>), False))"
    by (rule t [where it = read_error_it and s = after_selection, THEN conjunct2,
          THEN conjunct2, THEN conjunct2, THEN conjunct2, THEN conjunct2, THEN conjunct2,
          THEN conjunct2, THEN conjunct2, THEN conjunct2, THEN mp, THEN conjunct2,
          OF conjI [OF it(1) conjI [OF it(2) rd]]])
  from i w 1 2 3 4 5 it rd 6 show ?thesis by (intro conjI) (simp_all only: simp_thms)
qed

text \<open>
  \<^bold>\<open>C4.\<close> A read that reports \<^verbatim>\<open>EAGAIN\<close>, not end of input, ends the loop after its drain
  pass: the two passes that follow in the script, a unit and the end of input, are never
  run, and nothing is emitted.
\<close>

theorem C4_counterexample:
  "\<not> interrupted starved_it \<and> read_ret starved_it = AVERROR_EAGAIN
   \<and> read_ret starved_it \<noteq> AVERROR_EOF
   \<and> h264_while 0 [starved_it, unit_it, eof_it] (after_selection, False)
       = Some (Inr (after_selection, False))"
  by code_simp

text \<open>
  \<^bold>\<open>C4, as amended.\<close> When a read reports \<^verbatim>\<open>EAGAIN\<close> or end of input, the loop submits the
  packet to the decoder and, if the decoder accepts it, drains the decoder, releases the
  packet and terminates, for either signal; only when that submission itself reports
  \<^verbatim>\<open>EAGAIN\<close> does the loop go back to reading. A submission that fails otherwise is logged
  and ends the loop; and whatever the pass does, crash included, no later pass is run
  unless the submission reported \<^verbatim>\<open>EAGAIN\<close>. The outcomes of the pass are stated where the
  read and the submission went through valid members.
\<close>

theorem C4_drain_pass_ends_loop:
  assumes "\<not> interrupted it" "read_ret it = AVERROR_EAGAIN \<or> read_ret it = AVERROR_EOF"
  shows "(av_read_frame (read_ret it) s = Inr s1 \<and> avcodec_send_packet s1 = Inr ()
          \<and> 0 \<le> send_ret it
          \<and> receive_frames (recv_rets it) (s1, res) = Some (Inr (s', res'))
          \<longrightarrow> h264_while idx (it # its) (s, res) = Some (Inr (av_packet_unref s', res')))
       \<and> (av_read_frame (read_ret it) s = Inr s1 \<and> avcodec_send_packet s1 = Inr ()
          \<and> send_ret it = AVERROR_EAGAIN
          \<longrightarrow> h264_while idx (it # its) (s, res) = h264_while idx its (s1, res))
       \<and> (av_read_frame (read_ret it) s = Inr s1 \<and> avcodec_send_packet s1 = Inr ()
          \<and> send_ret it < 0 \<and> send_ret it \<noteq> AVERROR_EAGAIN
          \<longrightarrow> h264_while idx (it # its) (s, res)
              = Some (Inr (say ''FRAMEBUFFER avcodec_send_packet() failed:'' [send_ret it] s1,
                           res)))
       \<and> (send_ret it \<noteq> AVERROR_EAGAIN
          \<longrightarrow> h264_while idx (it # its) (s, res) = h264_while idx [it] (s, res))"
proof -
  from assms(2) have d: "(read_ret it = AVERROR_EAGAIN \<or> read_ret it = AVERROR_EOF) = True"
    by simp
  have neg: "AVERROR_EAGAIN < 0" by (simp add: AVERROR_EAGAIN_def)
  from assms(2) have nd: "(read_ret it < 0 \<and> read_ret it \<noteq> AVERROR_EAGAIN
      \<and> read_ret it \<noteq> AVERROR_EOF) = False" by auto
  note body = h264_body_def Let_def d nd
  have 1: "h264_while idx (it # its) (s, res) = Some (Inr (av_packet_unref s', res'))"
    if "av_read_frame (read_ret it) s = Inr s1 \<and> avcodec_send_packet s1 = Inr ()
          \<and> 0 \<le> send_ret it
          \<and> receive_frames (recv_rets it) (s1, res) = Some (Inr (s', res'))"
    using that assms(1) by (simp add: body)
  have 2: "h264_while idx (it # its) (s, res) = h264_while idx its (s1, res)"
    if "av_read_frame (read_ret it) s = Inr s1 \<and> avcodec_send_packet s1 = Inr ()
          \<and> send_ret it = AVERROR_EAGAIN"
    using that assms(1) neg by (simp add: body)
  have 3: "h264_while idx (it # its) (s, res)
              = Some (Inr (say ''FRAMEBUFFER avcodec_send_packet() failed:'' [send_ret it] s1,
                           res))"
    if "av_read_frame (read_ret it) s = Inr s1 \<and> avcodec_send_packet s1 = Inr ()
          \<and> send_ret it < 0 \<and> send_ret it \<noteq> AVERROR_EAGAIN"
    using that assms(1) by (simp add: body)
  have 4: "h264_while idx (it # its) (s, res) = h264_while idx [it] (s, res)"
    if "send_ret it \<noteq> AVERROR_EAGAIN"
    using that assms(1)
    by (simp add: body split: sum.splits option.splits prod.splits)
  show ?thesis by (intro conjI impI) (blast intro: 1 2 3 4)+
qed

text \<open>C4 as amended, at a starved read in a selected session, followed by an unread
  unit.\<close>

theorem C4_witness:
  "\<not> interrupted starved_it \<and> read_ret starved_it = AVERROR_EAGAIN
   \<and> av_read_frame (read_ret starved_it) after_selection = Inr after_selection
   \<and> avcodec_send_packet after_selection = Inr ()
   \<and> 0 \<le> send_ret starved_it
   \<and> receive_frames (recv_rets starved_it) (after_selection, False)
       = Some (Inr (after_selection, False))
   \<and> h264_while 0 (starved_it # [unit_it, eof_it]) (after_selection, False)
       = Some (Inr (av_packet_unref after_selection, False))
   \<and> h264_while 0 (starved_it # [unit_it, eof_it]) (after_selection, False)
       = h264_while 0 [starved_it] (after_selection, False)"
proof -
  have 1: "\<not> interrupted starved_it" "read_ret starved_it = AVERROR_EAGAIN"
    and 2: "0 \<le> send_ret starved_it" and 3: "send_ret starved_it \<noteq> AVERROR_EAGAIN"
    by (simp_all add: starved_it_def AVERROR_EAGAIN_def)
  note t = C4_drain_pass_ends_loop [OF 1(1) disjI1 [OF 1(2)], where idx = 0
      and s = after_selection and res = False and its = "[unit_it, eof_it]"]
  have 4: "h264_while 0 (starved_it # [unit_it, eof_it]) (after_selection, False)
       = Some (Inr (av_packet_unref after_selection, False))"
    by (rule t [THEN conjunct1, THEN mp,
          OF conjI [OF starved_read conjI [OF after_selection_send conjI [OF 2 starved_receive]]]])
  have 5: "h264_while 0 (starved_it # [unit_it, eof_it]) (after_selection, False)
       = h264_while 0 [starved_it] (after_selection, False)"
    by (rule t [THEN conjunct2, THEN conjunct2, THEN conjunct2, THEN mp, OF 3])
  from 1 starved_read after_selection_send 2 starved_receive 4 5 show ?thesis
    by (intro conjI) (simp_all only: simp_thms)
qed

text \<open>
  \<^bold>\<open>C5.\<close> A unit the decoder refuses with \<^verbatim>\<open>EAGAIN\<close> does not end the loop, but its
  reference is not released: \<^verbatim>\<open>continue\<close> skips \<^verbatim>\<open>av_packet_unref\<close>. The pass hands the
  packet back still owning its data; if the loop then stops, the reference is still held,
  and if it reads again, the reference is overwritten and lost. Two accepted units lose
  nothing.
\<close>

theorem C5_refused_unit_keeps_its_reference:
  "h264_body 0 refused_it (after_selection, False)
     = Some (Inr (Next, after_selection\<lparr>pkt_owned := True\<rparr>, False))
   \<and> map_option (map_sum id (\<lambda>sr. (pkt_owned (fst sr), pkt_lost (fst sr))))
        (h264_while 0 [refused_it, stop_it] (after_selection, False)) = Some (Inr (True, 0))
   \<and> map_option (map_sum id (\<lambda>sr. (pkt_owned (fst sr), pkt_lost (fst sr))))
        (h264_while 0 [refused_it, unit_it, stop_it] (after_selection, False))
      = Some (Inr (False, 1))
   \<and> map_option (map_sum id (\<lambda>sr. (pkt_owned (fst sr), pkt_lost (fst sr))))
        (h264_while 0 [unit_it, unit_it, stop_it] (after_selection, False))
      = Some (Inr (False, 0))"
  by code_simp

text \<open>
  \<^bold>\<open>C6.\<close> Stream selection visits every stream, never faults, and returns the index of
  the last stream that opens; it returns \<open>- 1\<close> exactly when no stream opens. The member
  \<^verbatim>\<open>m_avStream\<close> ends at the last stream of the list, opened or not. The index is an
  \<^verbatim>\<open>unsigned int\<close> stored in an \<^verbatim>\<open>int\<close>, hence the bound on the number of streams.
\<close>

theorem C6_last_opened_stream_wins:
  assumes "length streams \<le> 2 ^ 31"
  shows "\<exists>idx s'. h264VideoStreamIndex streams s = Inr (idx, s')
     \<and> (idx = - 1 \<longleftrightarrow> (\<forall>e\<in>set streams. \<not> opens e))
     \<and> (\<forall>k<length streams. opens (streams ! k)
           \<and> (\<forall>j. k < j \<and> j < length streams \<longrightarrow> \<not> opens (streams ! j)) \<longrightarrow> idx = int k)
     \<and> (streams \<noteq> [] \<longrightarrow> m_avStream s' = Some (length streams - 1))"
proof -
  from select_loop_result [of 0 streams "- 1" s] obtain s' where
    sel: "h264VideoStreamIndex streams s = Inr (last_opened 0 streams (- 1), s')"
    and av: "streams \<noteq> [] \<longrightarrow> m_avStream s' = Some (length streams - 1)"
    unfolding h264VideoStreamIndex_def by auto
  have last: "last_opened 0 streams (- 1) = int k"
    if "k < length streams" "opens (streams ! k)"
      "\<forall>j. k < j \<and> j < length streams \<longrightarrow> \<not> opens (streams ! j)" for k
  proof -
    from that(1) assms have "k < 2 ^ 31" by simp
    with last_opened_last [OF that, of 0 "- 1"] show ?thesis by (simp add: sint_index)
  qed
  have none: "last_opened 0 streams (- 1) = - 1 \<longleftrightarrow> (\<forall>e\<in>set streams. \<not> opens e)"
  proof
    assume "\<forall>e\<in>set streams. \<not> opens e"
    then show "last_opened 0 streams (- 1) = - 1" by (rule last_opened_none)
  next
    assume m: "last_opened 0 streams (- 1) = - 1"
    show "\<forall>e\<in>set streams. \<not> opens e"
    proof (rule ccontr)
      assume "\<not> (\<forall>e\<in>set streams. \<not> opens e)"
      then have ex: "\<exists>k. k < length streams \<and> opens (streams ! k)"
        by (auto simp: in_set_conv_nth)
      define k where "k = (GREATEST k. k < length streams \<and> opens (streams ! k))"
      have "k < length streams \<and> opens (streams ! k)"
        unfolding k_def using ex by (rule GreatestI_ex_nat [where b = "length streams"]) simp
      moreover have "\<forall>j. k < j \<and> j < length streams \<longrightarrow> \<not> opens (streams ! j)"
      proof (intro allI impI notI)
        fix j assume j: "k < j \<and> j < length streams" and "opens (streams ! j)"
        then have "j \<le> k" unfolding k_def
          by (intro Greatest_le_nat [where b = "length streams"]) auto
        with j show False by simp
      qed
      ultimately have "last_opened 0 streams (- 1) = int k" by (intro last) auto
      with m show False by simp
    qed
  qed
  from sel av last none show ?thesis by blast
qed

text \<open>C6 after a probe, at four streams of which the first and third open, and at a
  lone audio stream.\<close>

theorem C6_witness:
  "length [h264_stream, audio_stream, h264_stream, audio_stream] \<le> 2 ^ 31
   \<and> opens ([h264_stream, audio_stream, h264_stream, audio_stream] ! 2)
   \<and> (\<exists>s'. h264VideoStreamIndex [h264_stream, audio_stream, h264_stream, audio_stream] after_probe
          = Inr (2, s') \<and> m_avStream s' = Some 3)
   \<and> (\<exists>s'. h264VideoStreamIndex [audio_stream] after_probe = Inr (- 1, s'))"
proof -
  let ?ss = "[h264_stream, audio_stream, h264_stream, audio_stream]"
  have o: "opens h264_stream" "\<not> opens audio_stream"
    by (simp_all add: opens_def h264_stream_def audio_stream_def)
  have l: "length ?ss \<le> 2 ^ 31" "length [audio_stream] \<le> 2 ^ 31" by simp_all
  from C6_last_opened_stream_wins [OF l(1), of after_probe] obtain idx s' where
    1: "h264VideoStreamIndex ?ss after_probe = Inr (idx, s')"
    and 2: "\<forall>k<length ?ss. opens (?ss ! k)
           \<and> (\<forall>j. k < j \<and> j < length ?ss \<longrightarrow> \<not> opens (?ss ! j)) \<longrightarrow> idx = int k"
    and 3: "?ss \<noteq> [] \<longrightarrow> m_avStream s' = Some (length ?ss - 1)"
    by blast
  have "\<forall>j. 2 < j \<and> j < length ?ss \<longrightarrow> \<not> opens (?ss ! j)"
  proof (intro allI impI)
    fix j assume "2 < j \<and> j < length ?ss"
    then have "j = 3" by simp
    with o show "\<not> opens (?ss ! j)" by simp
  qed
  with 2 [rule_format, of 2] o have "idx = 2" by simp
  with 1 3 have a: "\<exists>s'. h264VideoStreamIndex ?ss after_probe = Inr (2, s') \<and> m_avStream s' = Some 3"
    by simp
  from C6_last_opened_stream_wins [OF l(2), of after_probe] o
  have b: "\<exists>s'. h264VideoStreamIndex [audio_stream] after_probe = Inr (- 1, s')" by auto
  from a b o show ?thesis by simp
qed

text \<open>
  \<^bold>\<open>C7.\<close> For a positive buffer size and non-negative byte counts of the connection, a
  fill that returns gives either \<open>- 1\<close> or a positive count, the minimum of the bytes
  available when the wait loop was left and the buffer size; and while no bytes are
  available and every wait only times out or wakes to nothing, the fill has not returned.
\<close>

theorem C7_fill_never_returns_zero:
  assumes "0 < buf_size" "0 \<le> avail" "\<forall>w\<in>set ws. 0 \<le> bytesAvailable w"
  shows "(\<forall>r lg. read_packet avail ws buf_size read_ok = Some (r, lg) \<longrightarrow>
            r = - 1 \<or> (0 < r \<and> (\<exists>len lg'. wait_loop avail ws [] = Some (Available len, lg')
                                   \<and> r = min len buf_size)))
       \<and> (avail = 0 \<and> (\<forall>w\<in>set ws. idle_wait w) \<longrightarrow>
            read_packet avail ws buf_size read_ok = None)"
proof (intro conjI allI impI)
  fix r lg assume rp: "read_packet avail ws buf_size read_ok = Some (r, lg)"
  then obtain x lg' where w: "wait_loop avail ws [] = Some (x, lg')"
    by (auto simp: read_packet_def split: option.splits)
  from wait_loop_exit [OF assms(2,3) w]
  show "r = - 1 \<or> (0 < r \<and> (\<exists>len lg'. wait_loop avail ws [] = Some (Available len, lg')
                                   \<and> r = min len buf_size))"
  proof
    assume "x = Return (- 1)"
    with rp w show ?thesis by (simp add: read_packet_def)
  next
    assume "\<exists>a. x = Available a \<and> 0 < a"
    then obtain a where a: "x = Available a" "0 < a" by blast
    with rp w assms(1) show ?thesis
      by (auto simp: read_packet_def Let_def min_def split: if_splits)
  qed
next
  assume "avail = 0 \<and> (\<forall>w\<in>set ws. idle_wait w)"
  then show "read_packet avail ws buf_size read_ok = None"
    by (simp add: read_packet_def wait_loop_idle)
qed

text \<open>C7 at a buffer of 8192: a timeout and then 20000 bytes give 8192; two timeouts
  give no return.\<close>

theorem C7_witness:
  "(0::int) < 8192 \<and> (0::int) \<le> 0
   \<and> 0 \<le> bytesAvailable timeout_step \<and> 0 \<le> bytesAvailable data_step
   \<and> idle_wait timeout_step
   \<and> wait_loop 0 [timeout_step, data_step] [] = Some (Available 20000, [])
   \<and> read_packet 0 [timeout_step, data_step] 8192 True = Some (min 20000 8192, [])
   \<and> read_packet 0 [timeout_step, timeout_step] 8192 True = None"
proof -
  have b: "0 \<le> bytesAvailable timeout_step" "0 \<le> bytesAvailable data_step"
    by (simp_all add: timeout_step_def data_step_def)
  then have h: "\<forall>w\<in>set [timeout_step, data_step]. 0 \<le> bytesAvailable w"
    and h': "\<forall>w\<in>set [timeout_step, timeout_step]. 0 \<le> bytesAvailable w"
    by simp_all
  have i: "idle_wait timeout_step"
    by (simp add: timeout_step_def idle_wait_def)
  have w: "wait_loop 0 [timeout_step, data_step] [] = Some (Available 20000, [])"
    by (simp add: timeout_step_def data_step_def)
  have e: "read_packet 0 [timeout_step, data_step] 8192 True = Some (8192, [])"
    unfolding read_packet_def w by simp
  note c = C7_fill_never_returns_zero [of 8192 0 "[timeout_step, data_step]" True, OF _ _ h]
  from c [THEN conjunct1, rule_format, OF _ _ e] w
  have "(8192::int) = min 20000 8192" by simp
  with e have 1: "read_packet 0 [timeout_step, data_step] 8192 True = Some (min 20000 8192, [])"
    by simp
  note c' = C7_fill_never_returns_zero [of 8192 0 "[timeout_step, timeout_step]" True, OF _ _ h']
  from c' [THEN conjunct2] i
  have 2: "read_packet 0 [timeout_step, timeout_step] 8192 True = None" by simp
  from b i w 1 2 show ?thesis by simp
qed

text \<open>
  \<^bold>\<open>C8.\<close> With the interruption flag set from the start, a new object behaves as
  claimed: interrupted at the first loop check, or with its probe failed by the
  interrupted fill, \<^verbatim>\<open>h264Loop\<close> returns false, emits nothing, and the teardown runs
  through, every release it reaches done. An object that has run a session with a scaler
  before does not: \<^verbatim>\<open>m_swsContext\<close> still holds the pointer that session freed, and when
  the flagged session ends before it selects a stream (probe failed, or no video stream),
  its teardown frees that scaler again and does not complete.
\<close>

theorem C8_flagged_restart_breaks_teardown:
  "interrupted stop_it
   \<and> h264Loop stopped_session idle
     = Some (Inr (False, idle\<lparr>m_avStream := Some 0, m_swsContext := Some 7,
         heap := [Some Buffer, None, None, None, None, None, None, None]\<rparr>))
   \<and> read_packet 0 [interrupted_step] 8192 True = Some (- 1, [])
   \<and> h264Loop interrupted_probe_session idle
     = Some (Inr (False, idle\<lparr>
         heap := [Some Buffer, None, Some (AVIOContext (Some 0)), None, None, None],
         dbg := [(''FRAMEBUFFER can't open input:'', [- 1])]\<rparr>))
   \<and> m_swsContext after_first_session = Some 7
   \<and> cell (heap after_first_session) 7 = None
   \<and> h264Loop interrupted_probe_session after_first_session = Some (Inl DoubleFree)
   \<and> h264Loop audio_only_session after_first_session = Some (Inl DoubleFree)"
  by code_simp

text \<open>
  \<^bold>\<open>C9.\<close> In snapshot mode a fetched image is scaled to the configured width only: with
  480 x 800 configured, a 1080 x 1920 screen is emitted as 480 x 853, in the format the
  transformation gives it.
\<close>

theorem C9_counterexample:
  "m_imageWidth snapshot_state = 480 \<and> m_imageHeight snapshot_state = 800
   \<and> nativeLoop [snap_awake, snap_stop] snapshot_state
     = Some (snapshot_state\<lparr>emitted := [\<lparr>img_width = 480, img_height = 853,
           img_format = Format_Transformed Format_Device, img_pixels = Picture\<rparr>],
         slept := 100\<rparr>)"
  by (simp add: snapshot_state_def idle_def snap_awake_def snap_stop_def native_image_def
      screen_def scaledToWidth_def isNull_def null_image_def emit_imageReady_def)

text \<open>
  \<^bold>\<open>C9, as amended.\<close> For a positive configured size W x H: every frame that a session of
  the decode loop has emitted when it returns is W x H in RGB888, from any state of the
  object. Every frame the snapshot loop emits is an image of one of its passes scaled to
  width W; the placeholder of a pass with the display asleep is W x H, RGB888, black,
  and scaling leaves it so; any scaled image is null or has width W.
\<close>

theorem C9_frame_sizes:
  assumes "0 < m_imageWidth s" "0 < m_imageHeight s"
  shows "(h264Loop env s = Some (Inr (res, t)) \<longrightarrow>
           (\<exists>n. emitted t = emitted s @ replicate n
                  \<lparr>img_width = m_imageWidth s, img_height = m_imageHeight s,
                    img_format = Format_RGB888, img_pixels = Picture\<rparr>))
     \<and> (nativeLoop its s = Some s' \<longrightarrow>
           (\<exists>imgs. emitted s' = emitted s @ map (\<lambda>img. scaledToWidth img (m_imageWidth s)) imgs
              \<and> (\<forall>img\<in>set imgs. \<exists>it\<in>set its. native_image it s = Some img)))
     \<and> (\<not> isScreenAwake it \<longrightarrow>
           native_image it s = Some \<lparr>img_width = m_imageWidth s, img_height = m_imageHeight s,
                                    img_format = Format_RGB888, img_pixels = Black\<rparr>
           \<and> scaledToWidth \<lparr>img_width = m_imageWidth s, img_height = m_imageHeight s,
                            img_format = Format_RGB888, img_pixels = Black\<rparr> (m_imageWidth s)
             = \<lparr>img_width = m_imageWidth s, img_height = m_imageHeight s,
                 img_format = Format_RGB888, img_pixels = Black\<rparr>)
     \<and> (isNull (scaledToWidth img (m_imageWidth s))
          \<or> img_width (scaledToWidth img (m_imageWidth s)) = m_imageWidth s)"
proof (intro conjI impI)
  assume "h264Loop env s = Some (Inr (res, t))"
  from h264Loop_frames [OF this] frame_image_positive [OF assms]
  show "\<exists>n. emitted t = emitted s @ replicate n
                  \<lparr>img_width = m_imageWidth s, img_height = m_imageHeight s,
                    img_format = Format_RGB888, img_pixels = Picture\<rparr>"
    by auto
next
  assume "nativeLoop its s = Some s'"
  then show "\<exists>imgs. emitted s' = emitted s @ map (\<lambda>img. scaledToWidth img (m_imageWidth s)) imgs
              \<and> (\<forall>img\<in>set imgs. \<exists>it\<in>set its. native_image it s = Some img)"
    by (rule nativeLoop_emitted)
next
  assume "\<not> isScreenAwake it"
  with assms show "native_image it s
      = Some \<lparr>img_width = m_imageWidth s, img_height = m_imageHeight s,
              img_format = Format_RGB888, img_pixels = Black\<rparr>"
    by (simp add: native_image_def fill_black_def QImage_new_def isNull_def null_image_def)
next
  from assms show "scaledToWidth \<lparr>img_width = m_imageWidth s, img_height = m_imageHeight s,
                            img_format = Format_RGB888, img_pixels = Black\<rparr> (m_imageWidth s)
             = \<lparr>img_width = m_imageWidth s, img_height = m_imageHeight s,
                 img_format = Format_RGB888, img_pixels = Black\<rparr>"
    by (simp add: scaledToWidth_def isNull_def null_image_def)
next
  show "isNull (scaledToWidth img (m_imageWidth s))
          \<or> img_width (scaledToWidth img (m_imageWidth s)) = m_imageWidth s"
    by (rule scaledToWidth_width)
qed

text \<open>C9 as amended, at the 480 x 800 object, new and in its second session.\<close>

theorem C9_witness:
  "0 < m_imageWidth idle \<and> 0 < m_imageHeight idle
   \<and> 0 < m_imageWidth after_first_session \<and> 0 < m_imageHeight after_first_session
   \<and> \<not> isScreenAwake snap_asleep
   \<and> (\<exists>res s' n. h264Loop one_unit_session idle = Some (Inr (res, s'))
         \<and> emitted s' = emitted idle @ replicate n
              \<lparr>img_width = m_imageWidth idle, img_height = m_imageHeight idle,
                img_format = Format_RGB888, img_pixels = Picture\<rparr>)
   \<and> (\<exists>res s' n. h264Loop one_unit_session after_first_session = Some (Inr (res, s'))
         \<and> emitted s' = emitted after_first_session @ replicate n
              \<lparr>img_width = 480, img_height = 800,
                img_format = Format_RGB888, img_pixels = Picture\<rparr>)
   \<and> (\<exists>s' imgs. nativeLoop [snap_asleep, snap_stop] idle = Some s'
         \<and> emitted s' = emitted idle @ map (\<lambda>img. scaledToWidth img (m_imageWidth idle)) imgs)
   \<and> native_image snap_asleep idle
       = Some \<lparr>img_width = m_imageWidth idle, img_height = m_imageHeight idle,
               img_format = Format_RGB888, img_pixels = Black\<rparr>
   \<and> (isNull (scaledToWidth screen (m_imageWidth idle))
        \<or> img_width (scaledToWidth screen (m_imageWidth idle)) = m_imageWidth idle)"
proof -
  have d: "0 < m_imageWidth idle" "0 < m_imageHeight idle" by (simp_all add: idle_def)
  have d': "0 < m_imageWidth after_first_session" "0 < m_imageHeight after_first_session"
    by (simp_all add: after_first_session_size)
  have z: "\<not> isScreenAwake snap_asleep" by (simp add: snap_asleep_def)
  note t = C9_frame_sizes [OF d, where its = "[snap_asleep, snap_stop]"
     and s' = "idle\<lparr>emitted := [\<lparr>img_width = 480, img_height = 800,
           img_format = Format_RGB888, img_pixels = Black\<rparr>], slept := 100\<rparr>"
     and it = snap_asleep and img = screen]
  from t [THEN conjunct1, THEN mp, OF one_unit_session_run] one_unit_session_run
  have 1: "\<exists>res s' n. h264Loop one_unit_session idle = Some (Inr (res, s'))
         \<and> emitted s' = emitted idle @ replicate n
              \<lparr>img_width = m_imageWidth idle, img_height = m_imageHeight idle,
                img_format = Format_RGB888, img_pixels = Picture\<rparr>"
    by blast
  from C9_frame_sizes [OF d', THEN conjunct1, THEN mp, OF second_session_run]
    second_session_run
  have again: "\<exists>res s' n. h264Loop one_unit_session after_first_session = Some (Inr (res, s'))
         \<and> emitted s' = emitted after_first_session @ replicate n
              \<lparr>img_width = 480, img_height = 800,
                img_format = Format_RGB888, img_pixels = Picture\<rparr>"
    unfolding after_first_session_size by blast
  from t [THEN conjunct2, THEN conjunct1, THEN mp, OF asleep_then_stop] asleep_then_stop
  have 2: "\<exists>s' imgs. nativeLoop [snap_asleep, snap_stop] idle = Some s'
         \<and> emitted s' = emitted idle @ map (\<lambda>img. scaledToWidth img (m_imageWidth idle)) imgs"
    by blast
  note 3 = t [THEN conjunct2, THEN conjunct2, THEN conjunct1, THEN mp, OF z, THEN conjunct1]
  note 4 = t [THEN conjunct2, THEN conjunct2, THEN conjunct2]
  from d d' z 1 again 2 3 4 show ?thesis by (intro conjI) (simp_all only: simp_thms)
qed

text \<open>
  \<^bold>\<open>C10.\<close> With a video mode that is none of the three still-image formats, a pass that
  finds the display awake returns from the snapshot loop without emitting; and passes
  that find it asleep each emit the black placeholder and sleep one interval, the loop
  going on with the rest of the script. The placeholder is W x H, RGB888, black when
  W and H are positive.
\<close>

theorem C10_mode_checked_only_when_awake:
  assumes "m_videoMode s \<noteq> NativeJpg" "m_videoMode s \<noteq> NativeRaw" "m_videoMode s \<noteq> NativePng"
  shows "(\<not> n_interrupted it \<and> isScreenAwake it \<longrightarrow> nativeLoop (it # its) s = Some s)
     \<and> ((\<forall>it\<in>set sleeping. \<not> n_interrupted it \<and> \<not> isScreenAwake it) \<longrightarrow>
          nativeLoop (sleeping @ rest) s
            = nativeLoop rest (s\<lparr>emitted := emitted s @ replicate (length sleeping)
                (scaledToWidth (fill_black (QImage_new (m_imageWidth s) (m_imageHeight s)
                   Format_RGB888)) (m_imageWidth s)),
              slept := slept s + length sleeping * m_nativeInterval s\<rparr>))
     \<and> (0 < m_imageWidth s \<and> 0 < m_imageHeight s \<longrightarrow>
          scaledToWidth (fill_black (QImage_new (m_imageWidth s) (m_imageHeight s)
             Format_RGB888)) (m_imageWidth s)
          = \<lparr>img_width = m_imageWidth s, img_height = m_imageHeight s,
             img_format = Format_RGB888, img_pixels = Black\<rparr>)"
  using assms by (simp add: native_image_def nativeLoop_asleep black_placeholder)

text \<open>C10 at the mode \<^verbatim>\<open>FastH264\<close>: awake at once, and asleep twice before waking.\<close>

theorem C10_witness:
  "m_videoMode idle \<noteq> NativeJpg \<and> m_videoMode idle \<noteq> NativeRaw \<and> m_videoMode idle \<noteq> NativePng
   \<and> \<not> n_interrupted snap_awake \<and> isScreenAwake snap_awake
   \<and> \<not> n_interrupted snap_asleep \<and> \<not> isScreenAwake snap_asleep
   \<and> 0 < m_imageWidth idle \<and> 0 < m_imageHeight idle
   \<and> nativeLoop [snap_awake, snap_asleep] idle = Some idle
   \<and> nativeLoop ([snap_asleep, snap_asleep] @ [snap_awake]) idle
       = Some (idle\<lparr>emitted := replicate (Suc (Suc 0)) \<lparr>img_width = 480, img_height = 800,
             img_format = Format_RGB888, img_pixels = Black\<rparr>, slept := 200\<rparr>)"
proof -
  have m: "m_videoMode idle \<noteq> NativeJpg" "m_videoMode idle \<noteq> NativeRaw"
    "m_videoMode idle \<noteq> NativePng" by (simp_all add: idle_def)
  have z: "\<not> n_interrupted snap_asleep" "\<not> isScreenAwake snap_asleep"
    by (simp_all add: snap_asleep_def)
  have a: "\<not> n_interrupted snap_awake \<and> isScreenAwake snap_awake"
    "\<forall>it\<in>set [snap_asleep, snap_asleep]. \<not> n_interrupted it \<and> \<not> isScreenAwake it"
    using z by (simp_all add: snap_awake_def)
  have d: "0 < m_imageWidth idle \<and> 0 < m_imageHeight idle" by (simp add: idle_def)
  note t = C10_mode_checked_only_when_awake [OF m]
  have 1: "nativeLoop [snap_awake, snap_asleep] idle = Some idle"
    by (rule t [THEN conjunct1, THEN mp, OF a(1)])
  have 2: "nativeLoop ([snap_asleep, snap_asleep] @ [snap_awake]) idle
       = nativeLoop [snap_awake] (idle\<lparr>emitted := emitted idle
           @ replicate (length [snap_asleep, snap_asleep])
              (scaledToWidth (fill_black (QImage_new (m_imageWidth idle) (m_imageHeight idle)
                Format_RGB888)) (m_imageWidth idle)),
         slept := slept idle + length [snap_asleep, snap_asleep] * m_nativeInterval idle\<rparr>)"
    by (rule t [THEN conjunct2, THEN conjunct1, THEN mp, OF a(2)])
  have 3: "scaledToWidth (fill_black (QImage_new (m_imageWidth idle) (m_imageHeight idle)
             Format_RGB888)) (m_imageWidth idle)
          = \<lparr>img_width = m_imageWidth idle, img_height = m_imageHeight idle,
             img_format = Format_RGB888, img_pixels = Black\<rparr>"
    by (rule t [THEN conjunct2, THEN conjunct2, THEN mp, OF d])
  have 4: "nativeLoop ([snap_asleep, snap_asleep] @ [snap_awake]) idle
       = Some (idle\<lparr>emitted := replicate (Suc (Suc 0)) \<lparr>img_width = 480, img_height = 800,
             img_format = Format_RGB888, img_pixels = Black\<rparr>, slept := 200\<rparr>)"
    unfolding 2 3 by (simp add: idle_def snap_awake_def native_image_def)
  from m a(1) z d 1 4 show ?thesis by (intro conjI) (simp_all only: simp_thms)
qed

end
